theory Spec2Isabelle
  imports Complex_Main
begin

section \<open>Python strings\<close>

text \<open>
  A Python \<open>str\<close> is modelled as a \<open>string\<close>; a character stands for a code point
  below 256. \<open>isspace\<close> is Python's \<open>str.isspace\<close> on that range (tab, line feed,
  vertical tab, form feed, carriage return, the separators 0x1C to 0x1F, space, 0x85
  and 0xA0), and \<open>strip\<close> is \<open>str.strip()\<close> with no argument: it removes the
  longest run of such characters from each end.
\<close>

definition isspace :: "char \<Rightarrow> bool" where
  "isspace c \<longleftrightarrow> c \<in> set [CHR 0x09, CHR 0x0A, CHR 0x0B, CHR 0x0C, CHR 0x0D,
      CHR 0x1C, CHR 0x1D, CHR 0x1E, CHR 0x1F, CHR 0x20, CHR 0x85, CHR 0xA0]"

definition strip :: "string \<Rightarrow> string" where
  "strip s = rev (dropWhile isspace (rev (dropWhile isspace s)))"

section \<open>gemini\_client.py\<close>

text \<open>
  Each entry of \<open>PROMPTS\<close> is the template text up to its single substitution point
  \<open>{text}\<close>, which ends every template; \<open>format_prompt\<close> is
  \<open>PROMPTS[mode].format(text=text)\<close>.
\<close>

definition PROMPTS :: "(string \<times> string) list" where
  "PROMPTS =
    [(''grammar_fix'',
        ''Fix any grammar, spelling, and punctuation errors in the following text.'' @ [CHR 0x0A] @
        ''Maintain the original tone and style. Only return the corrected text, nothing else.'' @
        [CHR 0x0A, CHR 0x0A] @ ''Text: ''),
     (''formal'',
        ''Rewrite the following text in a more formal and professional style.'' @ [CHR 0x0A] @
        ''Maintain the core message. Only return the rewritten text, nothing else.'' @
        [CHR 0x0A, CHR 0x0A] @ ''Text: ''),
     (''casual'',
        ''Rewrite the following text in a more casual and friendly style.'' @ [CHR 0x0A] @
        ''Maintain the core message. Only return the rewritten text, nothing else.'' @
        [CHR 0x0A, CHR 0x0A] @ ''Text: ''),
     (''simplify'',
        ''Simplify the following text to make it clearer and easier to understand.'' @ [CHR 0x0A] @
        ''Use simpler words and shorter sentences. Only return the simplified text, nothing else.'' @
        [CHR 0x0A, CHR 0x0A] @ ''Text: ''),
     (''expand'',
        ''Expand and elaborate on the following text with more detail and context.'' @ [CHR 0x0A] @
        ''Maintain the original style. Only return the expanded text, nothing else.'' @
        [CHR 0x0A, CHR 0x0A] @ ''Text: '')]"

definition format_prompt :: "string \<Rightarrow> string \<Rightarrow> string" where
  "format_prompt template text = template @ text"

text \<open>
  The client's fields. \<open>requests_per_minute\<close> is the \<open>maxlen\<close> of the deque
  \<open>request_times\<close>, which the constructor refuses when negative, hence a \<open>nat\<close>;
  \<open>max_retries\<close> is any Python integer.
\<close>

record client =
  max_retries :: int
  requests_per_minute :: nat
  request_times :: "real list"

definition new_client :: "nat \<Rightarrow> int \<Rightarrow> client" where
  "new_client rpm retries =
     \<lparr>max_retries = retries, requests_per_minute = rpm, request_times = []\<rparr>"

text \<open>
  The effects of the client are kept in a \<open>world\<close>: the clock that \<open>time.time()\<close>
  reads and \<open>time.sleep\<close> advances, and the chronological list of what the client did:
  the sleep of \<open>_check_rate_limit\<close>, the timestamp it appends to \<open>request_times\<close>,
  each \<open>generate_content\<close> call with its prompt, and each back-off sleep of the retry
  loop.
\<close>

datatype event =
  RateLimitSleep real
| RecordRequest real
| GenerateContent string
| BackoffSleep real

record world =
  clock :: real
  events :: "event list"

definition emit :: "event \<Rightarrow> world \<Rightarrow> world" where
  "emit e w = w\<lparr>events := events w @ [e]\<rparr>"

definition sleep :: "(real \<Rightarrow> event) \<Rightarrow> real \<Rightarrow> world \<Rightarrow> world" where
  "sleep tag d w = emit (tag d) (w\<lparr>clock := clock w + d\<rparr>)"

datatype error = IndexError | AttributeError | TypeError | ValueError

text \<open>\<open>deque.append\<close> on a deque with a \<open>maxlen\<close>: what no longer fits leaves at the left.\<close>

definition deque_append :: "nat \<Rightarrow> 'a list \<Rightarrow> 'a \<Rightarrow> 'a list" where
  "deque_append maxlen q x = (let q' = q @ [x] in drop (length q' - maxlen) q')"

text \<open>The \<open>while\<close> loop of \<open>_check_rate_limit\<close>: \<open>popleft\<close> while the front is older than 60 s.\<close>

definition discard_old :: "real \<Rightarrow> real list \<Rightarrow> real list" where
  "discard_old now q = dropWhile (\<lambda>t. now - t > 60) q"

definition record_request :: "client \<Rightarrow> world \<Rightarrow> client \<times> world" where
  "record_request c w =
     (c\<lparr>request_times := deque_append (requests_per_minute c) (request_times c) (clock w)\<rparr>,
      emit (RecordRequest (clock w)) w)"

definition check_rate_limit :: "client \<Rightarrow> world \<Rightarrow> (error + unit) \<times> client \<times> world" where
  "check_rate_limit c w =
     (let now = clock w;
          c1 = c\<lparr>request_times := discard_old now (request_times c)\<rparr>
      in if length (request_times c1) \<ge> requests_per_minute c1 then
           (case request_times c1 of
              [] \<Rightarrow> (Inl IndexError, c1, w)
            | oldest # _ \<Rightarrow>
                let wait_time = 60 - (now - oldest);
                    w1 = (if wait_time > 0 then sleep RateLimitSleep wait_time w else w)
                in (Inr (), record_request c1 w1))
         else (Inr (), record_request c1 w))"

text \<open>
  What one attempt gets from the provider: \<open>generate_content\<close> or the read of
  \<open>response.text\<close> raises, or \<open>response.text\<close> is a string (possibly empty).
\<close>

datatype outcome = Raises | Response string

text \<open>
  The \<open>for attempt in range(self.max_retries)\<close> loop, over the attempts still to make.
  The provider is an oracle from the attempt number to what that attempt gets.
\<close>

fun retry_loop ::
  "client \<Rightarrow> (nat \<Rightarrow> outcome) \<Rightarrow> string \<Rightarrow> nat list \<Rightarrow> world \<Rightarrow> string option \<times> world"
where
  "retry_loop c provider prompt [] w = (None, w)"
| "retry_loop c provider prompt (attempt # rest) w =
     (let w1 = emit (GenerateContent prompt) w
      in case provider attempt of
           Response txt \<Rightarrow>
             if txt \<noteq> [] then (Some (strip txt), w1)
             else retry_loop c provider prompt rest w1
         | Raises \<Rightarrow>
             if int attempt < max_retries c - 1
             then retry_loop c provider prompt rest (sleep BackoffSleep (2 ^ attempt) w1)
             else retry_loop c provider prompt rest w1)"

definition improve_text ::
  "client \<Rightarrow> (nat \<Rightarrow> outcome) \<Rightarrow> string \<Rightarrow> string \<Rightarrow> world
     \<Rightarrow> (error + string option) \<times> client \<times> world"
where
  "improve_text c provider text mode w =
     (if text = [] \<or> strip text = [] then (Inr None, c, w)
      else case map_of PROMPTS mode of
        None \<Rightarrow> (Inr None, c, w)
      | Some template \<Rightarrow>
          (case check_rate_limit c w of
             (Inl e, c1, w1) \<Rightarrow> (Inl e, c1, w1)
           | (Inr _, c1, w1) \<Rightarrow>
               let prompt = format_prompt template text;
                   (r, w2) = retry_loop c1 provider prompt [0..<nat (max_retries c1)] w1
               in (Inr r, c1, w2)))"

text \<open>
  A run of the client: a list of \<open>improve_text\<close> calls, each after some time has passed
  (its gap) since the one before returned. An exception of a call leaves the state as
  the call left it, as it does for the caller that catches it.
\<close>

type_synonym call = "real \<times> string \<times> string \<times> (nat \<Rightarrow> outcome)"

fun run :: "client \<Rightarrow> world \<Rightarrow> call list \<Rightarrow> client \<times> world" where
  "run c w [] = (c, w)"
| "run c w ((gap, text, mode, provider) # calls) =
     (case improve_text c provider text mode (w\<lparr>clock := clock w + gap\<rparr>) of
        (r, c1, w1) \<Rightarrow> run c1 w1 calls)"

subsection \<open>Reading a trace\<close>

fun is_attempt :: "event \<Rightarrow> bool" where
  "is_attempt (GenerateContent p) = True"
| "is_attempt e = False"

fun is_backoff :: "event \<Rightarrow> bool" where
  "is_backoff (BackoffSleep d) = True"
| "is_backoff e = False"

text \<open>The timestamps of the requests let through by the rate limiter, oldest first.\<close>

fun recorded :: "event list \<Rightarrow> real list" where
  "recorded [] = []"
| "recorded (RecordRequest t # es) = t # recorded es"
| "recorded (e # es) = recorded es"

text \<open>How many of the timestamps lie in the trailing 60 s window that ends at \<open>T\<close>.\<close>

definition window_count :: "real \<Rightarrow> real list \<Rightarrow> nat" where
  "window_count T ts = length (filter (\<lambda>t. T - 60 < t \<and> t \<le> T) ts)"

text \<open>
  When a call that starts at time \<open>t\<close> sent each of its requests to the provider: its
  trace replayed, with every sleep moving the time on.
\<close>

fun sent :: "real \<Rightarrow> event list \<Rightarrow> real list" where
  "sent t [] = []"
| "sent t (RateLimitSleep d # es) = sent (t + d) es"
| "sent t (BackoffSleep d # es) = sent (t + d) es"
| "sent t (GenerateContent prompt # es) = t # sent t es"
| "sent t (RecordRequest t' # es) = sent t es"

text \<open>An attempt fails when it raises or when its response text is empty.\<close>

definition failed :: "outcome \<Rightarrow> bool" where
  "failed out \<longleftrightarrow> out = Raises \<or> out = Response []"

text \<open>A provider that answers a call's attempts from a script, and raises once it is used up.\<close>

definition scripted :: "outcome list \<Rightarrow> nat \<Rightarrow> outcome" where
  "scripted outs a = (if a < length outs then outs ! a else Raises)"

definition valid_modes :: "string set" where
  "valid_modes = {''grammar_fix'', ''formal'', ''casual'', ''simplify'', ''expand''}"

text \<open>The seconds slept by the retry loop's back-off, summed over a trace.\<close>

fun backoff_slept :: "event list \<Rightarrow> real" where
  "backoff_slept [] = 0"
| "backoff_slept (BackoffSleep d # es) = d + backoff_slept es"
| "backoff_slept (e # es) = backoff_slept es"

text \<open>
  What one failed attempt leaves in the trace: its \<open>generate_content\<close> call, and a
  back-off sleep of \<open>2 ^ attempt\<close> seconds when it raised and was not the last attempt
  allowed.
\<close>

definition attempt_events :: "client \<Rightarrow> (nat \<Rightarrow> outcome) \<Rightarrow> string \<Rightarrow> nat \<Rightarrow> event list" where
  "attempt_events c provider prompt a =
     GenerateContent prompt #
       (if provider a = Raises \<and> int a < max_retries c - 1 then [BackoffSleep (2 ^ a)] else [])"

text \<open>
  The wait \<open>60 - (now - oldest_timestamp)\<close> of a call, from the oldest timestamp left after
  the discard.
\<close>

definition oldest_wait :: "client \<Rightarrow> world \<Rightarrow> real" where
  "oldest_wait c w = 60 - (clock w - hd (discard_old (clock w) (request_times c)))"

text \<open>
  What the rate limiter keeps true between calls: the recorded timestamps end with the
  deque, every timestamp that has left the deque is at least 60 s old, the deque is within
  its capacity, and no trailing window holds more timestamps than the quota.
\<close>

definition limiter_inv :: "client \<Rightarrow> world \<Rightarrow> bool" where
  "limiter_inv c w \<longleftrightarrow>
     (\<exists>old. recorded (events w) = old @ request_times c \<and> (\<forall>h\<in>set old. h + 60 \<le> clock w)) \<and>
     length (request_times c) \<le> requests_per_minute c \<and>
     (\<forall>T. window_count T (recorded (events w)) \<le> requests_per_minute c)"

section \<open>config\_manager.py\<close>

text \<open>
  What \<open>yaml.safe_load\<close> hands over: null, booleans, integers, strings, sequences and
  mappings. A mapping is a Python \<open>dict\<close>, kept as the list of its items in insertion
  order, with keys that are strings and differ from each other. YAML floats are left
  out: the quota and the other numbers of this configuration are integers.
\<close>

datatype cval =
  VNone
| VBool bool
| VInt int
| VStr string
| VList "cval list"
| VDict "(string \<times> cval) list"

definition DEFAULT_CONFIG :: "(string \<times> cval) list" where
  "DEFAULT_CONFIG =
    [(''gemini'', VDict
        [(''api_key'', VStr []),
         (''model'', VStr ''gemini-2.0-flash-exp''),
         (''max_retries'', VInt 3),
         (''timeout'', VInt 10)]),
     (''hotkeys'', VDict
        [(''grammar_fix'', VStr ''cmd+shift+g''),
         (''formal'', VStr ''cmd+shift+f''),
         (''casual'', VStr ''cmd+shift+c''),
         (''simplify'', VStr ''cmd+shift+s''),
         (''expand'', VStr ''cmd+shift+e'')]),
     (''rate_limit'', VDict
        [(''requests_per_minute'', VInt 50)]),
     (''ui'', VDict
        [(''show_notifications'', VBool True),
         (''notification_duration'', VInt 2)]),
     (''logging'', VDict
        [(''level'', VStr ''INFO''),
         (''file'', VStr ''writing_assistant.log'')])]"

text \<open>\<open>d[key] = v\<close>: a key already there keeps its place, a new key goes to the end.\<close>

fun dict_set :: "(string \<times> cval) list \<Rightarrow> string \<Rightarrow> cval \<Rightarrow> (string \<times> cval) list" where
  "dict_set [] key v = [(key, v)]"
| "dict_set ((k, old) # rest) key v =
     (if k = key then (k, v) # rest else (k, old) # dict_set rest key v)"

text \<open>\<open>d.get(key, dflt)\<close>.\<close>

definition dict_get :: "(string \<times> cval) list \<Rightarrow> string \<Rightarrow> cval \<Rightarrow> cval" where
  "dict_get d key dflt = (case map_of d key of Some v \<Rightarrow> v | None \<Rightarrow> dflt)"

text \<open>
  \<open>_merge_with_defaults(config, defaults)\<close>. The second argument is \<open>result\<close>, which
  starts as a copy of \<open>defaults\<close>; the first holds the items of \<open>config\<close> the
  \<open>for\<close> loop has still to visit. A key whose values are mappings on both sides gets
  the recursive merge, any other key the user's value.
\<close>

function merge_with_defaults ::
  "(string \<times> cval) list \<Rightarrow> (string \<times> cval) list \<Rightarrow> (string \<times> cval) list"
where
  "merge_with_defaults [] result = result"
| "merge_with_defaults ((key, v) # items) result =
     merge_with_defaults items
       (case (map_of result key, v) of
          (Some (VDict d), VDict u) \<Rightarrow> dict_set result key (VDict (merge_with_defaults u d))
        | _ \<Rightarrow> dict_set result key v)"
  by pat_completeness auto
termination
  by (relation "measure (\<lambda>(config, result). size_list (size_prod (\<lambda>k. 0) size) config)") auto

text \<open>Python's truth value of a configuration value, as \<open>not api_key\<close> reads it.\<close>

fun truthy :: "cval \<Rightarrow> bool" where
  "truthy VNone = False"
| "truthy (VBool b) = b"
| "truthy (VInt i) = (i \<noteq> 0)"
| "truthy (VStr s) = (s \<noteq> [])"
| "truthy (VList xs) = (xs \<noteq> [])"
| "truthy (VDict d) = (d \<noteq> [])"

text \<open>
  The values that \<open><=\<close> and \<open>>\<close> compare with an integer (\<open>True\<close> is 1 and
  \<open>False\<close> is 0); for the others the comparison raises \<open>TypeError\<close>.
\<close>

fun as_number :: "cval \<Rightarrow> int option" where
  "as_number (VInt i) = Some i"
| "as_number (VBool b) = Some (if b then 1 else 0)"
| "as_number v = None"

text \<open>
  \<open>_validate\<close> on \<open>self.config\<close>. A section that is not a mapping has no \<open>get\<close>:
  \<open>AttributeError\<close>.
\<close>

definition validate :: "(string \<times> cval) list \<Rightarrow> error + unit" where
  "validate config =
     (case dict_get config ''gemini'' (VDict []) of
        VDict gemini \<Rightarrow>
          (let api_key = dict_get gemini ''api_key'' (VStr [])
           in if \<not> truthy api_key \<or> api_key = VStr ''YOUR_GEMINI_API_KEY_HERE''
              then Inl ValueError
              else
                (case dict_get config ''rate_limit'' (VDict []) of
                   VDict rate_limit \<Rightarrow>
                     (case as_number (dict_get rate_limit ''requests_per_minute'' (VInt 0)) of
                        Some rpm \<Rightarrow> if rpm \<le> 0 \<or> rpm > 60 then Inl ValueError else Inr ()
                      | None \<Rightarrow> Inl TypeError)
                 | _ \<Rightarrow> Inl AttributeError))
      | _ \<Rightarrow> Inl AttributeError)"

text \<open>\<open>ConfigManager.get(*keys, default)\<close>, from the value \<open>self.config\<close>.\<close>

fun config_get :: "cval \<Rightarrow> string list \<Rightarrow> cval \<Rightarrow> cval" where
  "config_get v [] dflt = v"
| "config_get v (key # keys) dflt =
     (case v of
        VDict d \<Rightarrow> (case map_of d key of Some v' \<Rightarrow> config_get v' keys dflt | None \<Rightarrow> dflt)
      | _ \<Rightarrow> dflt)"

text \<open>A user document that sets the API key and the quota and nothing else.\<close>

definition user_config :: "string \<Rightarrow> int \<Rightarrow> (string \<times> cval) list" where
  "user_config api_key rpm =
     [(''gemini'', VDict [(''api_key'', VStr api_key)]),
      (''rate_limit'', VDict [(''requests_per_minute'', VInt rpm)])]"

section \<open>text\_handler.py\<close>

text \<open>
  The state is the string on the general pasteboard: \<open>None\<close> when it holds no string.
  \<open>clearContents\<close> followed by \<open>setString_forType_\<close> makes it \<open>Some\<close> of the new
  string; the pasteboard calls are taken not to raise (a raise would end in the
  \<open>except\<close> branch, which returns \<open>None\<close> or \<open>False\<close>). Running \<open>osascript\<close> is
  the environment's move: an oracle from the script and the pasteboard to what
  \<open>subprocess.run\<close> gave (the exit code with the two outputs, or an exception such
  as a timeout) and the pasteboard afterwards.
\<close>

datatype script_result = Exit int string string | RunFailed

type_synonym osascript = "string \<Rightarrow> string option \<Rightarrow> script_result \<times> string option"

definition execute_applescript ::
  "osascript \<Rightarrow> string \<Rightarrow> string option \<Rightarrow> string option \<times> string option" where
  "execute_applescript osa script clip =
     (case osa script clip of
        (Exit returncode out err, clip') \<Rightarrow>
          (if returncode = 0 then Some (strip out) else None, clip')
      | (RunFailed, clip') \<Rightarrow> (None, clip'))"

definition copy_script :: string where
  "copy_script =
     [CHR 0x0A] @ replicate 16 (CHR '' '') @ ''tell application \"System Events\"'' @
     [CHR 0x0A] @ replicate 20 (CHR '' '') @ ''keystroke \"c\" using command down'' @
     [CHR 0x0A] @ replicate 16 (CHR '' '') @ ''end tell'' @
     [CHR 0x0A] @ replicate 12 (CHR '' '')"

definition paste_script :: string where
  "paste_script =
     [CHR 0x0A] @ replicate 16 (CHR '' '') @ ''tell application \"System Events\"'' @
     [CHR 0x0A] @ replicate 20 (CHR '' '') @ ''keystroke \"v\" using command down'' @
     [CHR 0x0A] @ replicate 16 (CHR '' '') @ ''end tell'' @
     [CHR 0x0A] @ replicate 12 (CHR '' '')"

text \<open>The truth value of what \<open>stringForType_\<close> returned.\<close>

fun str_truthy :: "string option \<Rightarrow> bool" where
  "str_truthy None = False"
| "str_truthy (Some s) = (s \<noteq> [])"

definition get_selected_text :: "osascript \<Rightarrow> string option \<Rightarrow> string option \<times> string option" where
  "get_selected_text osa clip =
     (let old_clipboard = clip;
          (out, clip1) = execute_applescript osa copy_script clip;
          new_clipboard = clip1;
          clip2 = (if str_truthy old_clipboard then old_clipboard else clip1)
      in case new_clipboard of
           Some s \<Rightarrow> if s \<noteq> [] \<and> strip s \<noteq> [] then (Some s, clip2) else (None, clip2)
         | None \<Rightarrow> (None, clip2))"

definition replace_selected_text ::
  "osascript \<Rightarrow> string \<Rightarrow> string option \<Rightarrow> bool \<times> string option" where
  "replace_selected_text osa new_text clip =
     (if new_text = [] then (False, clip)
      else
        let old_clipboard = clip;
            clip1 = Some new_text;
            (out, clip2) = execute_applescript osa paste_script clip1;
            clip3 = (if str_truthy old_clipboard then old_clipboard else clip2)
        in (True, clip3))"

text \<open>
  Two environments for examples: a script run that exits with the given code and leaves
  the pasteboard alone, and a copy keystroke that puts the selected text on it.
\<close>

definition script_exits :: "int \<Rightarrow> osascript" where
  "script_exits returncode script clip = (Exit returncode [] [], clip)"

definition copies :: "string \<Rightarrow> osascript" where
  "copies selected script clip = (Exit 0 [] [], Some selected)"

section \<open>main.py\<close>

text \<open>
  \<open>handle_hotkey\<close> is called on whatever thread the listener delivers the hotkey on,
  so several calls may be under way at once. Each caller is at a stage of the function:
  outside it (\<open>Idle\<close>), or inside the \<open>try\<close> before one of its calls, in the
  \<open>except\<close> handler, or in the \<open>finally\<close> clause. \<open>body_step\<close> is one move inside
  the \<open>try\<close> statement, with what the move did: what the called component returns or
  raises is the environment's choice.
\<close>

datatype action =
  Dropped
| Notify string
| Capture
| ApiCall string string
| Replace string

datatype stage =
  Idle
| Started string
| Capturing string
| NoSelection
| Improving string string
| Replacing string string
| Reporting string
| Handling
| Releasing

definition shown :: "bool \<Rightarrow> string \<Rightarrow> action list" where
  "shown show_notifications message = (if show_notifications then [Notify message] else [])"

inductive body_step :: "bool \<Rightarrow> stage \<Rightarrow> action list \<Rightarrow> stage \<Rightarrow> bool"
  for show_notifications :: bool
where
  processing:
    "body_step show_notifications (Started mode)
       (shown show_notifications (''Processing ('' @ mode @ '')...'')) (Capturing mode)"
| no_selection:
    "(selected :: string option) = None \<or> selected = Some [] \<Longrightarrow>
     body_step show_notifications (Capturing mode) [Capture] NoSelection"
| captured:
    "selected_text \<noteq> [] \<Longrightarrow>
     body_step show_notifications (Capturing mode) [Capture] (Improving mode selected_text)"
| early_return:
    "body_step show_notifications NoSelection (shown show_notifications ''No text selected'')
       Releasing"
| improved:
    "improved_text \<noteq> [] \<Longrightarrow>
     body_step show_notifications (Improving mode selected_text) [ApiCall selected_text mode]
       (Replacing mode improved_text)"
| not_improved:
    "body_step show_notifications (Improving mode selected_text) [ApiCall selected_text mode]
       (Reporting ''Failed to improve text'')"
| replaced:
    "body_step show_notifications (Replacing mode improved_text) [Replace improved_text]
       (Reporting (''Text improved ('' @ mode @ '')''))"
| not_replaced:
    "body_step show_notifications (Replacing mode improved_text) [Replace improved_text]
       (Reporting ''Failed to replace text'')"
| reported:
    "body_step show_notifications (Reporting message) (shown show_notifications message)
       Releasing"
| exception:
    "st \<in> {Started mode, Capturing mode, NoSelection, Reporting message} \<Longrightarrow>
     body_step show_notifications st [] Handling"
| api_exception:
    "body_step show_notifications (Improving mode selected_text) [ApiCall selected_text mode]
       Handling"
| replace_exception:
    "body_step show_notifications (Replacing mode improved_text) [Replace improved_text]
       Handling"
| handled:
    "body_step show_notifications Handling (shown show_notifications ''An error occurred'')
       Releasing"
| handler_raised:
    "body_step show_notifications Handling [] Releasing"
| not_an_Exception:
    "st \<in> {Started mode, Capturing mode, NoSelection, Improving mode selected_text,
            Replacing mode improved_text, Reporting message} \<Longrightarrow>
     body_step show_notifications st [] Releasing"

text \<open>
  The process: \<open>processing_lock\<close>, the stage of every caller, and what has been done so
  far and by whom. A step is one caller moving: \<open>acquire(blocking=False)\<close> tests and
  takes the lock at once (\<open>busy\<close> when it is held, \<open>acquire\<close> when it is free), and
  \<open>release\<close> is the \<open>finally\<close> clause.
\<close>

record orchestrator =
  lock :: bool
  stages :: "nat \<Rightarrow> stage"
  log :: "(nat \<times> action) list"

definition init :: orchestrator where
  "init = \<lparr>lock = False, stages = (\<lambda>i. Idle), log = []\<rparr>"

inductive step :: "bool \<Rightarrow> nat \<Rightarrow> orchestrator \<Rightarrow> orchestrator \<Rightarrow> bool"
  for show_notifications :: bool
where
  busy:
    "stages s i = Idle \<Longrightarrow> lock s \<Longrightarrow>
     step show_notifications i s (s\<lparr>log := log s @ [(i, Dropped)]\<rparr>)"
| acquire:
    "stages s i = Idle \<Longrightarrow> \<not> lock s \<Longrightarrow>
     step show_notifications i s (s\<lparr>lock := True, stages := (stages s)(i := Started mode)\<rparr>)"
| body:
    "stages s i = st \<Longrightarrow> body_step show_notifications st acts st' \<Longrightarrow>
     step show_notifications i s
       (s\<lparr>stages := (stages s)(i := st'), log := log s @ map (Pair i) acts\<rparr>)"
| release:
    "stages s i = Releasing \<Longrightarrow>
     step show_notifications i s (s\<lparr>lock := False, stages := (stages s)(i := Idle)\<rparr>)"

inductive reachable :: "bool \<Rightarrow> orchestrator \<Rightarrow> bool"
  for show_notifications :: bool
where
  initial: "reachable show_notifications init"
| after: "reachable show_notifications s \<Longrightarrow> step show_notifications i s s' \<Longrightarrow>
     reachable show_notifications s'"

text \<open>An upper bound on the moves a caller still has to make before it is outside again.\<close>

fun remaining :: "stage \<Rightarrow> nat" where
  "remaining Idle = 0"
| "remaining Releasing = 1"
| "remaining Handling = 2"
| "remaining (Reporting message) = 3"
| "remaining (Replacing mode improved_text) = 4"
| "remaining (Improving mode selected_text) = 5"
| "remaining NoSelection = 5"
| "remaining (Capturing mode) = 6"
| "remaining (Started mode) = 7"

text \<open>
  What the lock keeps true: it is held exactly when some caller is inside, and no two
  callers are.
\<close>

definition lock_inv :: "orchestrator \<Rightarrow> bool" where
  "lock_inv s \<longleftrightarrow>
     (lock s \<longleftrightarrow> (\<exists>i. stages s i \<noteq> Idle)) \<and>
     (\<forall>i j. stages s i \<noteq> Idle \<and> stages s j \<noteq> Idle \<longrightarrow> i = j)"

text \<open>
  The state after a move inside the \<open>try\<close> statement, and after the \<open>finally\<close>
  clause, as the rules \<open>body\<close> and \<open>release\<close> give them.
\<close>

definition moved :: "nat \<Rightarrow> stage \<Rightarrow> action list \<Rightarrow> orchestrator \<Rightarrow> orchestrator" where
  "moved i st acts s = s\<lparr>stages := (stages s)(i := st), log := log s @ map (Pair i) acts\<rparr>"

definition released :: "nat \<Rightarrow> orchestrator \<Rightarrow> orchestrator" where
  "released i s = s\<lparr>lock := False, stages := (stages s)(i := Idle)\<rparr>"

text \<open>
  Two runs with notifications on. In both, caller 0 takes the lock for a grammar fix. In
  the first, caller 1 presses a hotkey while caller 0 is inside; caller 0 then shows the
  processing notification, finds nothing selected, shows that and returns early. In the
  second, the first thing caller 0 does raises; the handler shows its notification.
\<close>

definition busy_state :: orchestrator where
  "busy_state = init\<lparr>lock := True, stages := (stages init)(0 := Started ''grammar_fix'')\<rparr>"

definition dropped_state :: orchestrator where
  "dropped_state = busy_state\<lparr>log := log busy_state @ [(1, Dropped)]\<rparr>"

definition notified_state :: orchestrator where
  "notified_state =
     moved 0 (Capturing ''grammar_fix'') [Notify ''Processing (grammar_fix)...''] dropped_state"

definition unselected_state :: orchestrator where
  "unselected_state = moved 0 NoSelection [Capture] notified_state"

definition returning_state :: orchestrator where
  "returning_state = moved 0 Releasing [Notify ''No text selected''] unselected_state"

definition returned_state :: orchestrator where
  "returned_state = released 0 returning_state"

definition failing_state :: orchestrator where
  "failing_state = moved 0 Handling [] busy_state"

definition handled_state :: orchestrator where
  "handled_state = moved 0 Releasing [Notify ''An error occurred''] failing_state"

definition recovered_state :: orchestrator where
  "recovered_state = released 0 handled_state"

section \<open>Properties of the API client\<close>

lemma strip_eq_Nil_iff: "strip s = [] \<longleftrightarrow> (\<forall>c\<in>set s. isspace c)"
proof
  assume "strip s = []"
  then have all: "\<forall>x\<in>set (dropWhile isspace s). isspace x"
    by (simp add: strip_def)
  have "dropWhile isspace s = []"
  proof (rule ccontr)
    assume ne: "dropWhile isspace s \<noteq> []"
    then have "\<not> isspace (hd (dropWhile isspace s))" by (rule hd_dropWhile)
    moreover from ne have "hd (dropWhile isspace s) \<in> set (dropWhile isspace s)" by simp
    ultimately show False using all by blast
  qed
  then show "\<forall>c\<in>set s. isspace c" by simp
next
  assume "\<forall>c\<in>set s. isspace c"
  then show "strip s = []"
    by (auto simp: strip_def dest: set_dropWhileD)
qed

lemma PROMPTS_keys: "map_of PROMPTS mode = None \<longleftrightarrow> mode \<notin> valid_modes"
  by (simp add: map_of_eq_None_iff PROMPTS_def valid_modes_def)

subsection \<open>The rate limiter lets every call through when the quota is positive\<close>

lemma check_rate_limit_ok:
  assumes "1 \<le> requests_per_minute c"
  shows "\<exists>c1 w1 pre. check_rate_limit c w = (Inr (), c1, w1) \<and>
           max_retries c1 = max_retries c \<and> requests_per_minute c1 = requests_per_minute c \<and>
           events w1 = events w @ pre @ [RecordRequest (clock w1)] \<and>
           (\<forall>e\<in>set pre. \<not> is_attempt e \<and> \<not> is_backoff e)"
  using assms
  by (auto simp: check_rate_limit_def Let_def record_request_def emit_def sleep_def
      split: list.splits)

lemma improve_text_valid:
  assumes "\<exists>ch\<in>set text. \<not> isspace ch" and "mode \<in> valid_modes"
    and "check_rate_limit c w = (Inr (), c1, w1)"
  shows "\<exists>template. map_of PROMPTS mode = Some template \<and>
     improve_text c provider text mode w =
       (Inr (fst (retry_loop c1 provider (format_prompt template text)
                    [0..<nat (max_retries c1)] w1)),
        c1,
        snd (retry_loop c1 provider (format_prompt template text)
               [0..<nat (max_retries c1)] w1))"
proof -
  from assms(2) obtain template where t: "map_of PROMPTS mode = Some template"
    using PROMPTS_keys [of mode] by auto
  from assms(1) have "text \<noteq> []" "strip text \<noteq> []"
    by (auto simp: strip_eq_Nil_iff)
  with t assms(3) show ?thesis
    by (simp add: improve_text_def Let_def split_beta)
qed

subsection \<open>The retry loop\<close>

text \<open>
  Attempts that fail are passed one by one: each leaves its \<open>generate_content\<close> call in
  the trace, and a back-off sleep of \<open>2 ^ attempt\<close> seconds only when it raised and was
  not the last attempt allowed.
\<close>

lemma retry_loop_failed_prefix:
  "\<forall>a\<in>set as. failed (provider a) \<Longrightarrow>
   retry_loop c provider prompt (as @ rest) w =
   retry_loop c provider prompt rest
     (w\<lparr>clock := clock w +
          (\<Sum>a\<leftarrow>as. if provider a = Raises \<and> int a < max_retries c - 1 then 2 ^ a else 0),
       events := events w @ concat (map (\<lambda>a. GenerateContent prompt #
          (if provider a = Raises \<and> int a < max_retries c - 1
           then [BackoffSleep (2 ^ a)] else [])) as)\<rparr>)"
proof (induction as arbitrary: w)
  case Nil
  then show ?case by simp
next
  case (Cons a as)
  then show ?case
    by (cases "provider a") (auto simp: failed_def emit_def sleep_def Let_def add.assoc)
qed

lemma retry_loop_all_failed:
  assumes "\<forall>a\<in>set as. failed (provider a)"
  shows "fst (retry_loop c provider prompt as w) = None"
    and "filter is_attempt (events (snd (retry_loop c provider prompt as w))) =
         filter is_attempt (events w) @ replicate (length as) (GenerateContent prompt)"
proof -
  have eq: "retry_loop c provider prompt as w = retry_loop c provider prompt []
     (w\<lparr>clock := clock w +
          (\<Sum>a\<leftarrow>as. if provider a = Raises \<and> int a < max_retries c - 1 then 2 ^ a else 0),
       events := events w @ concat (map (\<lambda>a. GenerateContent prompt #
          (if provider a = Raises \<and> int a < max_retries c - 1
           then [BackoffSleep (2 ^ a)] else [])) as)\<rparr>)"
    using retry_loop_failed_prefix [OF assms, of c prompt "[]" w] by simp
  show "fst (retry_loop c provider prompt as w) = None" by (simp add: eq)
  have "filter is_attempt (concat (map (\<lambda>a. GenerateContent prompt #
          (if provider a = Raises \<and> int a < max_retries c - 1
           then [BackoffSleep (2 ^ a)] else [])) as))
        = replicate (length as) (GenerateContent prompt)"
    by (induction as) auto
  then show "filter is_attempt (events (snd (retry_loop c provider prompt as w))) =
         filter is_attempt (events w) @ replicate (length as) (GenerateContent prompt)"
    by (simp add: eq)
qed

lemma retry_loop_success_after_failures:
  assumes "\<forall>a\<in>set as. failed (provider a)" and "provider n = Response t" and "t \<noteq> []"
  shows "retry_loop c provider prompt (as @ n # rest) w =
     (Some (strip t),
      w\<lparr>clock := clock w +
          (\<Sum>a\<leftarrow>as. if provider a = Raises \<and> int a < max_retries c - 1 then 2 ^ a else 0),
        events := events w @ concat (map (\<lambda>a. GenerateContent prompt #
          (if provider a = Raises \<and> int a < max_retries c - 1
           then [BackoffSleep (2 ^ a)] else [])) as)
          @ [GenerateContent prompt]\<rparr>)"
  using assms(2,3)
  by (simp add: retry_loop_failed_prefix [OF assms(1)] emit_def)

lemma upt_split_at: "n < m \<Longrightarrow> [0..<m] = [0..<n] @ n # [Suc n..<m]"
  by (metis less_imp_le_nat upt_add_eq_append upt_conv_Cons le_add_diff_inverse
      plus_nat.add_0 zero_le)

lemma backoff_slept_append: "backoff_slept (es @ fs) = backoff_slept es + backoff_slept fs"
  by (induction es rule: backoff_slept.induct) simp_all

lemma backoff_slept_raises:
  "backoff_slept (concat (map (\<lambda>a. [GenerateContent prompt, BackoffSleep (2 ^ a)]) [0..<N]))
     = (\<Sum>a<N. 2 ^ a)"
  by (induction N) (simp_all add: backoff_slept_append)

subsection \<open>Input validation\<close>

text \<open>
  C6. When the text is empty or holds only whitespace, or the mode is not one of the five
  known modes, \<open>improve_text\<close> returns \<open>None\<close> at once: the client (so its
  \<open>request_times\<close>), the clock and the trace are what they were, so no
  \<open>generate_content\<close> call was made.
\<close>

theorem improve_text_rejects_bad_input:
  "text = [] \<or> (\<forall>ch\<in>set text. isspace ch) \<or> mode \<notin> valid_modes \<Longrightarrow>
   improve_text c provider text mode w = (Inr None, c, w)"
  using PROMPTS_keys [of mode]
  by (auto simp: improve_text_def strip_eq_Nil_iff split: option.splits)

theorem improve_text_rejects_bad_input_witness:
  "improve_text (new_client 50 3) (scripted [Response ''never used'']) '' '' ''grammar_fix''
     \<lparr>clock = 0, events = []\<rparr>
     = (Inr None, new_client 50 3, \<lparr>clock = 0, events = []\<rparr>)
   \<and> improve_text (new_client 50 3) (scripted [Response ''never used'']) ''some text'' ''shout''
     \<lparr>clock = 0, events = []\<rparr>
     = (Inr None, new_client 50 3, \<lparr>clock = 0, events = []\<rparr>)"
  using improve_text_rejects_bad_input [of "'' ''" "''grammar_fix''" "new_client 50 3"
      "scripted [Response ''never used'']" "\<lparr>clock = 0, events = []\<rparr>"]
    improve_text_rejects_bad_input [of "''some text''" "''shout''" "new_client 50 3"
      "scripted [Response ''never used'']" "\<lparr>clock = 0, events = []\<rparr>"]
  by (simp add: isspace_def valid_modes_def)

subsection \<open>Exhausting the retries\<close>

text \<open>
  C3, as the code has it. For a text with at least one character that is not whitespace,
  a valid mode and a quota of at least one request per minute: when every attempt fails
  (it raises, or its response text is empty), \<open>improve_text\<close> returns \<open>None\<close> as a
  value, and the number of \<open>generate_content\<close> calls it made is \<open>max_retries\<close>
  (none when \<open>max_retries\<close> is not positive).
\<close>

theorem improve_text_exhausts_retries:
  assumes "\<exists>ch\<in>set text. \<not> isspace ch" and "mode \<in> valid_modes"
    and "1 \<le> requests_per_minute c"
    and "\<forall>a. failed (provider a)"
  shows "fst (improve_text c provider text mode w) = Inr None \<and>
         int (length (filter is_attempt
                (events (snd (snd (improve_text c provider text mode w)))))) =
         int (length (filter is_attempt (events w))) + max 0 (max_retries c)"
proof -
  from check_rate_limit_ok [OF assms(3), of w] obtain c1 w1 pre where
    ok: "check_rate_limit c w = (Inr (), c1, w1)" "max_retries c1 = max_retries c"
      "events w1 = events w @ pre @ [RecordRequest (clock w1)]"
      "\<forall>e\<in>set pre. \<not> is_attempt e \<and> \<not> is_backoff e"
    by blast
  from improve_text_valid [OF assms(1,2) ok(1), of provider] obtain template where
    it: "improve_text c provider text mode w =
       (Inr (fst (retry_loop c1 provider (format_prompt template text)
                    [0..<nat (max_retries c1)] w1)),
        c1,
        snd (retry_loop c1 provider (format_prompt template text)
               [0..<nat (max_retries c1)] w1))"
    by blast
  have all: "\<forall>a\<in>set [0..<nat (max_retries c1)]. failed (provider a)"
    using assms(4) by simp
  have w1: "filter is_attempt (events w1) = filter is_attempt (events w)"
    using ok(3,4) by simp
  show ?thesis
    using retry_loop_all_failed [OF all, of c1 "format_prompt template text" w1]
    by (simp add: it w1 ok(2))
qed

theorem improve_text_exhausts_retries_witness:
  "fst (improve_text (new_client 50 3) (scripted [Raises, Response [], Raises]) ''teh cat''
          ''grammar_fix'' \<lparr>clock = 0, events = []\<rparr>) = Inr None
   \<and> length (filter is_attempt (events (snd (snd (improve_text (new_client 50 3)
          (scripted [Raises, Response [], Raises]) ''teh cat'' ''grammar_fix''
          \<lparr>clock = 0, events = []\<rparr>))))) = 3"
proof -
  have script: "\<forall>a. failed (scripted [Raises, Response [], Raises] a)"
    by (simp add: scripted_def failed_def nth_Cons')
  have chars: "\<exists>ch\<in>set ''teh cat''. \<not> isspace ch"
    by (simp add: isspace_def)
  have mode: "''grammar_fix'' \<in> valid_modes"
    by (simp add: valid_modes_def)
  have quota: "1 \<le> requests_per_minute (new_client 50 3)"
    by (simp add: new_client_def)
  show ?thesis
    using improve_text_exhausts_retries [OF chars mode quota script,
        of "\<lparr>clock = 0, events = []\<rparr>"]
    by (simp add: new_client_def)
qed

text \<open>
  The claim as written speaks of every non-empty text. A text of one space is not empty,
  the mode is valid and all three scripted attempts fail, yet no attempt is made where
  \<open>max_retries\<close> is 3: the blank-input guard returns first.
\<close>

theorem improve_text_blank_counterexample:
  "'' '' \<noteq> [] \<and> ''grammar_fix'' \<in> valid_modes
   \<and> failed (scripted [Raises, Raises, Raises] 0)
   \<and> failed (scripted [Raises, Raises, Raises] 1)
   \<and> failed (scripted [Raises, Raises, Raises] 2)
   \<and> max_retries (new_client 50 3) = 3
   \<and> length (filter is_attempt (events (snd (snd (improve_text (new_client 50 3)
          (scripted [Raises, Raises, Raises]) '' '' ''grammar_fix''
          \<lparr>clock = 0, events = []\<rparr>))))) = 0"
  by (simp add: improve_text_def strip_def isspace_def valid_modes_def scripted_def
      failed_def new_client_def)

subsection \<open>Back-off before a success\<close>

text \<open>
  C4. For \<open>N < max_retries\<close>: when the first \<open>N\<close> attempts raise and attempt \<open>N + 1\<close>
  returns a non-empty text \<open>t\<close>, \<open>improve_text\<close> returns that text (trimmed, as every
  output is), and the back-off sleeps of the call add up to
  \<open>2^0 + 2^1 + ... + 2^(N-1)\<close> seconds.
\<close>

theorem improve_text_backoff_then_success:
  assumes "\<exists>ch\<in>set text. \<not> isspace ch" and "mode \<in> valid_modes"
    and "1 \<le> requests_per_minute c"
    and "int N < max_retries c"
    and "\<forall>a<N. provider a = Raises"
    and "provider N = Response t" and "t \<noteq> []"
  shows "fst (improve_text c provider text mode w) = Inr (Some (strip t)) \<and>
         backoff_slept (events (snd (snd (improve_text c provider text mode w)))) =
         backoff_slept (events w) + (\<Sum>a<N. 2 ^ a)"
proof -
  from check_rate_limit_ok [OF assms(3), of w] obtain c1 w1 pre where
    ok: "check_rate_limit c w = (Inr (), c1, w1)" "max_retries c1 = max_retries c"
      "events w1 = events w @ pre @ [RecordRequest (clock w1)]"
      "\<forall>e\<in>set pre. \<not> is_attempt e \<and> \<not> is_backoff e"
    by blast
  from improve_text_valid [OF assms(1,2) ok(1), of provider] obtain template where
    it: "improve_text c provider text mode w =
       (Inr (fst (retry_loop c1 provider (format_prompt template text)
                    [0..<nat (max_retries c1)] w1)),
        c1,
        snd (retry_loop c1 provider (format_prompt template text)
               [0..<nat (max_retries c1)] w1))"
    by blast
  have pre: "backoff_slept pre = 0"
    using ok(4) by (induction pre rule: backoff_slept.induct) simp_all
  have w1: "backoff_slept (events w1) = backoff_slept (events w)"
    by (simp add: ok(3) backoff_slept_append pre)
  have split: "[0..<nat (max_retries c1)] = [0..<N] @ N # [Suc N..<nat (max_retries c1)]"
    using assms(4) ok(2) by (intro upt_split_at) linarith
  have fails: "\<forall>a\<in>set [0..<N]. failed (provider a)"
    using assms(5) by (simp add: failed_def)
  have same: "map (\<lambda>a. GenerateContent (format_prompt template text) #
          (if provider a = Raises \<and> int a < max_retries c1 - 1
           then [BackoffSleep (2 ^ a)] else [])) [0..<N]
        = map (\<lambda>a. [GenerateContent (format_prompt template text), BackoffSleep (2 ^ a)])
            [0..<N]"
    using assms(4,5) ok(2) by auto
  show ?thesis
    unfolding it split
    by (simp add: retry_loop_success_after_failures [OF fails assms(6,7)] same
        backoff_slept_append backoff_slept_raises w1 del: upt.simps)
qed

theorem improve_text_backoff_then_success_witness:
  "fst (improve_text (new_client 50 3) (scripted [Raises, Raises, Response ''The cat.'']) ''teh cat''
          ''grammar_fix'' \<lparr>clock = 0, events = []\<rparr>) = Inr (Some ''The cat.'')
   \<and> backoff_slept (events (snd (snd (improve_text (new_client 50 3)
          (scripted [Raises, Raises, Response ''The cat.'']) ''teh cat'' ''grammar_fix''
          \<lparr>clock = 0, events = []\<rparr>)))) = 3"
proof -
  have script: "\<forall>a<2. scripted [Raises, Raises, Response ''The cat.''] a = Raises"
    by (simp add: scripted_def nth_Cons')
  have last: "scripted [Raises, Raises, Response ''The cat.''] 2 = Response ''The cat.''"
    by (simp add: scripted_def)
  have chars: "\<exists>ch\<in>set ''teh cat''. \<not> isspace ch"
    by (simp add: isspace_def)
  have mode: "''grammar_fix'' \<in> valid_modes"
    by (simp add: valid_modes_def)
  have quota: "1 \<le> requests_per_minute (new_client 50 3)"
    by (simp add: new_client_def)
  have retries: "int 2 < max_retries (new_client 50 3)"
    by (simp add: new_client_def)
  have sum: "(\<Sum>a<(2::nat). (2::real) ^ a) = 3"
    by (simp add: lessThan_Suc numeral_2_eq_2)
  have trimmed: "strip ''The cat.'' = ''The cat.''"
    by (simp add: strip_def isspace_def)
  show ?thesis
    using improve_text_backoff_then_success [OF chars mode quota retries script last,
        of "\<lparr>clock = 0, events = []\<rparr>"]
    by (simp add: sum trimmed)
qed

subsection \<open>The rate limiter\<close>

lemma recorded_append: "recorded (es @ fs) = recorded es @ recorded fs"
  by (induction es rule: recorded.induct) simp_all

lemma recorded_attempts: "\<forall>e\<in>set es. is_attempt e \<or> is_backoff e \<Longrightarrow> recorded es = []"
  by (induction es rule: recorded.induct) simp_all

lemma retry_loop_trace:
  "\<exists>rest. events (snd (retry_loop c provider prompt as w)) = events w @ rest \<and>
          (\<forall>e\<in>set rest. is_attempt e \<or> is_backoff e) \<and>
          clock w \<le> clock (snd (retry_loop c provider prompt as w))"
proof (induction as arbitrary: w)
  case Nil
  then show ?case by simp
next
  case (Cons a as)
  let ?w1 = "emit (GenerateContent prompt) w"
  show ?case
  proof (cases "provider a")
    case Raises
    show ?thesis
    proof (cases "int a < max_retries c - 1")
      case True
      from Cons.IH [of "sleep BackoffSleep (2 ^ a) ?w1"] obtain rest where
        r: "events (snd (retry_loop c provider prompt as (sleep BackoffSleep (2 ^ a) ?w1))) =
           events (sleep BackoffSleep (2 ^ a) ?w1) @ rest"
        "\<forall>e\<in>set rest. is_attempt e \<or> is_backoff e"
        "clock (sleep BackoffSleep (2 ^ a) ?w1) \<le>
           clock (snd (retry_loop c provider prompt as (sleep BackoffSleep (2 ^ a) ?w1)))"
        by blast
      have "clock w \<le> clock (sleep BackoffSleep (2 ^ a) ?w1)"
        by (simp add: emit_def sleep_def)
      with r(3) have "clock w \<le>
          clock (snd (retry_loop c provider prompt as (sleep BackoffSleep (2 ^ a) ?w1)))"
        by linarith
      with r(1,2) show ?thesis
        using Raises True
        by (intro exI [of _ "GenerateContent prompt # BackoffSleep (2 ^ a) # rest"])
          (simp add: emit_def sleep_def)
    next
      case False
      from Cons.IH [of ?w1] obtain rest where
        "events (snd (retry_loop c provider prompt as ?w1)) = events ?w1 @ rest"
        "\<forall>e\<in>set rest. is_attempt e \<or> is_backoff e"
        "clock ?w1 \<le> clock (snd (retry_loop c provider prompt as ?w1))"
        by blast
      then show ?thesis
        using Raises False
        by (intro exI [of _ "GenerateContent prompt # rest"]) (simp add: emit_def)
    qed
  next
    case (Response resp)
    show ?thesis
    proof (cases "resp = []")
      case True
      from Cons.IH [of ?w1] obtain rest where
        "events (snd (retry_loop c provider prompt as ?w1)) = events ?w1 @ rest"
        "\<forall>e\<in>set rest. is_attempt e \<or> is_backoff e"
        "clock ?w1 \<le> clock (snd (retry_loop c provider prompt as ?w1))"
        by blast
      then show ?thesis
        using Response True
        by (intro exI [of _ "GenerateContent prompt # rest"]) (simp add: emit_def)
    next
      case False
      then show ?thesis
        using Response by (intro exI [of _ "[GenerateContent prompt]"]) (simp add: emit_def)
    qed
  qed
qed

lemma window_step:
  assumes "\<forall>T. window_count T H \<le> n"
    and "H @ [x] = old @ q" and "\<forall>h\<in>set old. h + 60 \<le> x" and "length q \<le> n"
  shows "window_count T (H @ [x]) \<le> n"
proof (cases "T - 60 < x \<and> x \<le> T")
  case True
  with assms(3) have "filter (\<lambda>t. T - 60 < t \<and> t \<le> T) old = []"
    by (auto simp: filter_empty_conv)
  then have "window_count T (H @ [x]) = window_count T q"
    by (simp add: window_count_def assms(2))
  also have "\<dots> \<le> length q"
    by (simp add: window_count_def)
  finally show ?thesis using assms(4) by simp
next
  case False
  then have "window_count T (H @ [x]) = window_count T H"
    by (auto simp: window_count_def)
  with assms(1) show ?thesis by simp
qed

lemma record_request_inv:
  assumes "recorded (events w) = old @ request_times c"
    and "\<forall>h\<in>set old. h + 60 \<le> clock w"
    and "length (request_times c) \<le> requests_per_minute c"
    and "\<forall>T. window_count T (recorded (events w)) \<le> requests_per_minute c"
    and "length (request_times c) = requests_per_minute c \<Longrightarrow>
           request_times c \<noteq> [] \<and> hd (request_times c) + 60 \<le> clock w"
  shows "limiter_inv (fst (record_request c w)) (snd (record_request c w))"
proof -
  let ?q = "request_times c" and ?n = "requests_per_minute c" and ?x = "clock w"
  let ?q' = "deque_append ?n ?q ?x"
  have rec: "recorded (events (snd (record_request c w))) = recorded (events w) @ [?x]"
    by (simp add: record_request_def emit_def recorded_append)
  have "\<exists>old'. recorded (events w) @ [?x] = old' @ ?q' \<and> (\<forall>h\<in>set old'. h + 60 \<le> ?x) \<and>
          length ?q' \<le> ?n"
  proof (cases "length ?q = ?n")
    case True
    with assms(5) obtain oldest rest where q: "?q = oldest # rest" "oldest + 60 \<le> ?x"
      by (cases ?q) auto
    with True have "?q' = rest @ [?x]"
      by (simp add: deque_append_def)
    with q True assms(1,2) show ?thesis
      by (intro exI [of _ "old @ [oldest]"]) auto
  next
    case False
    with assms(3) have "?q' = ?q @ [?x]"
      by (simp add: deque_append_def)
    with False assms(1,2,3) show ?thesis
      by (intro exI [of _ old]) auto
  qed
  then obtain old' where old': "recorded (events w) @ [?x] = old' @ ?q'"
    "\<forall>h\<in>set old'. h + 60 \<le> ?x" "length ?q' \<le> ?n"
    by blast
  have "\<forall>T. window_count T (recorded (events w) @ [?x]) \<le> ?n"
    using window_step [OF assms(4) old'] by blast
  with old' rec show ?thesis
    by (auto simp: limiter_inv_def record_request_def emit_def)
qed

lemma limiter_inv_later:
  "limiter_inv c w \<Longrightarrow> 0 \<le> d \<Longrightarrow> limiter_inv c (w\<lparr>clock := clock w + d\<rparr>)"
  by (fastforce simp: limiter_inv_def)

lemma check_rate_limit_inv:
  assumes "limiter_inv c w"
  shows "limiter_inv (fst (snd (check_rate_limit c w))) (snd (snd (check_rate_limit c w)))"
proof -
  let ?now = "clock w" and ?n = "requests_per_minute c"
  let ?q1 = "discard_old ?now (request_times c)"
  let ?c1 = "c\<lparr>request_times := ?q1\<rparr>"
  from assms obtain old where old: "recorded (events w) = old @ request_times c"
    "\<forall>h\<in>set old. h + 60 \<le> ?now"
    and len: "length (request_times c) \<le> ?n"
    and win: "\<forall>T. window_count T (recorded (events w)) \<le> ?n"
    by (auto simp: limiter_inv_def)
  let ?old1 = "old @ takeWhile (\<lambda>t. ?now - t > 60) (request_times c)"
  have rec1: "recorded (events w) = ?old1 @ request_times ?c1"
    by (simp add: old(1) discard_old_def)
  have old1: "\<forall>h\<in>set ?old1. h + 60 \<le> ?now"
    using old(2) by (auto dest: set_takeWhileD)
  have len1: "length (request_times ?c1) \<le> requests_per_minute ?c1"
    using len by (simp add: discard_old_def) (meson le_trans length_dropWhile_le)
  have win1: "\<forall>T. window_count T (recorded (events w)) \<le> requests_per_minute ?c1"
    using win by simp
  show ?thesis
  proof (cases "?n \<le> length ?q1")
    case full: True
    show ?thesis
    proof (cases ?q1)
      case Nil
      with full rec1 old1 win show ?thesis
        by (simp add: check_rate_limit_def limiter_inv_def)
    next
      case (Cons oldest rest)
      let ?wait = "60 - (?now - oldest)"
      let ?w1 = "if ?wait > 0 then sleep RateLimitSleep ?wait w else w"
      have crl: "check_rate_limit c w = (Inr (), record_request ?c1 ?w1)"
        using full Cons by (simp add: check_rate_limit_def Let_def)
      have ev: "recorded (events ?w1) = recorded (events w)"
        by (simp add: sleep_def emit_def recorded_append)
      have clk: "?now \<le> clock ?w1" "oldest + 60 \<le> clock ?w1"
        by (simp_all add: sleep_def emit_def)
      have a1: "recorded (events ?w1) = ?old1 @ request_times ?c1"
        using rec1 ev by simp
      have a2: "\<forall>h\<in>set ?old1. h + 60 \<le> clock ?w1"
        using old1 clk(1) by (meson order_trans)
      have a4: "\<forall>T. window_count T (recorded (events ?w1)) \<le> requests_per_minute ?c1"
        using win1 ev by simp
      have a5: "request_times ?c1 \<noteq> [] \<and> hd (request_times ?c1) + 60 \<le> clock ?w1"
        using Cons clk(2) by simp
      show ?thesis
        unfolding crl using record_request_inv [OF a1 a2 len1 a4 a5] by simp
    qed
  next
    case False
    then have crl: "check_rate_limit c w = (Inr (), record_request ?c1 w)"
      by (simp add: check_rate_limit_def Let_def)
    have a5: "length (request_times ?c1) = requests_per_minute ?c1 \<Longrightarrow>
        request_times ?c1 \<noteq> [] \<and> hd (request_times ?c1) + 60 \<le> clock w"
      using False by simp
    show ?thesis
      unfolding crl using record_request_inv [OF rec1 old1 len1 win1 a5] by simp
  qed
qed

lemma retry_loop_inv:
  assumes "limiter_inv c w"
  shows "limiter_inv c (snd (retry_loop c' provider prompt as w))"
proof -
  from retry_loop_trace [of c' provider prompt as w] obtain rest where
    r: "events (snd (retry_loop c' provider prompt as w)) = events w @ rest"
    "\<forall>e\<in>set rest. is_attempt e \<or> is_backoff e"
    "clock w \<le> clock (snd (retry_loop c' provider prompt as w))"
    by blast
  have "recorded (events (snd (retry_loop c' provider prompt as w))) = recorded (events w)"
    by (simp add: r(1) recorded_append recorded_attempts [OF r(2)])
  with assms r(3) show ?thesis
    by (fastforce simp: limiter_inv_def)
qed

lemma improve_text_inv:
  assumes "limiter_inv c w"
  shows "limiter_inv (fst (snd (improve_text c provider text mode w)))
           (snd (snd (improve_text c provider text mode w)))"
proof -
  obtain r c1 w1 where crl: "check_rate_limit c w = (r, c1, w1)"
    by (metis prod_cases3)
  with check_rate_limit_inv [OF assms] have inv1: "limiter_inv c1 w1" by simp
  show ?thesis
    using assms inv1 crl retry_loop_inv [OF inv1]
    by (cases r) (auto simp: improve_text_def Let_def split_beta split: option.splits)
qed

lemma run_inv:
  assumes "limiter_inv c w" and "\<forall>call\<in>set calls. 0 \<le> fst call"
  shows "limiter_inv (fst (run c w calls)) (snd (run c w calls))"
  using assms
proof (induction calls arbitrary: c w)
  case Nil
  then show ?case by simp
next
  case (Cons call calls)
  obtain gap body mode provider where call: "call = (gap, body, mode, provider)"
    by (metis prod_cases4)
  let ?w = "w\<lparr>clock := clock w + gap\<rparr>"
  from Cons.prems call have "limiter_inv c ?w"
    by (intro limiter_inv_later) auto
  then have "limiter_inv (fst (snd (improve_text c provider body mode ?w)))
           (snd (snd (improve_text c provider body mode ?w)))"
    by (rule improve_text_inv)
  moreover from Cons.prems have "\<forall>call\<in>set calls. 0 \<le> fst call" by simp
  ultimately show ?case
    using Cons.IH by (simp add: call split_beta)
qed

lemma limiter_inv_start: "limiter_inv (new_client rpm retries) \<lparr>clock = t0, events = []\<rparr>"
  by (simp add: limiter_inv_def new_client_def window_count_def)

lemma run_window:
  assumes "\<forall>call\<in>set calls. 0 \<le> fst call"
  shows "window_count T (recorded (events (snd (run (new_client rpm retries)
            \<lparr>clock = t0, events = []\<rparr> calls)))) \<le> rpm"
proof -
  have req: "requests_per_minute (fst (run c w calls)) = requests_per_minute c" for c w
  proof (induction calls arbitrary: c w)
    case Nil
    then show ?case by simp
  next
    case (Cons call calls)
    obtain gap body mode provider where call: "call = (gap, body, mode, provider)"
      by (metis prod_cases4)
    have "requests_per_minute (fst (snd (improve_text c provider body mode w'))) =
        requests_per_minute c" for w'
      by (auto simp: improve_text_def check_rate_limit_def record_request_def Let_def split_beta
          split: option.splits list.splits sum.splits)
    then show ?case
      using Cons.IH by (simp add: call split_beta)
  qed
  from run_inv [OF limiter_inv_start assms, of rpm retries t0]
  show ?thesis
    by (simp add: limiter_inv_def req) (simp add: new_client_def)
qed

lemma check_rate_limit_full:
  assumes "1 \<le> requests_per_minute c"
    and "length (discard_old (clock w) (request_times c)) = requests_per_minute c"
  shows "check_rate_limit c w =
    (Inr (),
     c\<lparr>request_times := tl (discard_old (clock w) (request_times c)) @
          [clock w + max 0 (oldest_wait c w)]\<rparr>,
     w\<lparr>clock := clock w + max 0 (oldest_wait c w),
       events := events w @
         (if 0 < oldest_wait c w then [RateLimitSleep (oldest_wait c w)] else []) @
         [RecordRequest (clock w + max 0 (oldest_wait c w))]\<rparr>)"
proof -
  from assms obtain oldest rest where q: "discard_old (clock w) (request_times c) = oldest # rest"
    by (cases "discard_old (clock w) (request_times c)") auto
  with assms(2) have len: "Suc (length rest) = requests_per_minute c" by simp
  show ?thesis
    using q len
    by (simp add: check_rate_limit_def Let_def record_request_def deque_append_def emit_def
        sleep_def oldest_wait_def max_def)
qed

text \<open>
  What the limiter does keep. It is passed once by every call of \<open>improve_text\<close> that
  gets through validation, and records one timestamp for it. When the deque, after the
  discard of timestamps older than 60 s, holds \<open>requests_per_minute\<close> entries (and the
  quota is at least one), the call first sleeps \<open>60 - (now - oldest_timestamp)\<close> seconds
  if that is positive, then records the time after the sleep, dropping the oldest entry,
  and only then makes its attempts. In every run that starts from a new client, with any
  non-negative time between the calls, no window \<open>(T - 60, T]\<close> holds more than
  \<open>requests_per_minute\<close> recorded timestamps, that is, calls let through.
\<close>

theorem rate_limit_blocks_and_bounds:
  "((\<exists>ch\<in>set text. \<not> isspace ch) \<and> mode \<in> valid_modes \<and> 1 \<le> requests_per_minute c \<and>
     length (discard_old (clock w) (request_times c)) = requests_per_minute c \<longrightarrow>
     (\<exists>rest. events (snd (snd (improve_text c provider text mode w))) =
          events w @
          (if 0 < oldest_wait c w then [RateLimitSleep (oldest_wait c w)] else []) @
          [RecordRequest (clock w + max 0 (oldest_wait c w))] @ rest \<and>
        (\<forall>e\<in>set rest. is_attempt e \<or> is_backoff e)) \<and>
     request_times (fst (snd (improve_text c provider text mode w))) =
       tl (discard_old (clock w) (request_times c)) @ [clock w + max 0 (oldest_wait c w)])
   \<and> ((\<forall>call\<in>set calls. 0 \<le> fst call) \<longrightarrow>
        window_count T (recorded (events (snd (run (new_client rpm retries)
          \<lparr>clock = t0, events = []\<rparr> calls)))) \<le> rpm)"
proof (intro conjI impI)
  assume a: "(\<exists>ch\<in>set text. \<not> isspace ch) \<and> mode \<in> valid_modes \<and> 1 \<le> requests_per_minute c \<and>
     length (discard_old (clock w) (request_times c)) = requests_per_minute c"
  let ?c1 = "c\<lparr>request_times := tl (discard_old (clock w) (request_times c)) @
          [clock w + max 0 (oldest_wait c w)]\<rparr>"
  let ?w1 = "w\<lparr>clock := clock w + max 0 (oldest_wait c w),
       events := events w @
         (if 0 < oldest_wait c w then [RateLimitSleep (oldest_wait c w)] else []) @
         [RecordRequest (clock w + max 0 (oldest_wait c w))]\<rparr>"
  from a have crl: "check_rate_limit c w = (Inr (), ?c1, ?w1)"
    by (intro check_rate_limit_full) simp_all
  from a improve_text_valid [OF _ _ crl, of "text" mode provider] obtain template where
    it: "improve_text c provider text mode w =
       (Inr (fst (retry_loop ?c1 provider (format_prompt template text)
                    [0..<nat (max_retries ?c1)] ?w1)),
        ?c1,
        snd (retry_loop ?c1 provider (format_prompt template text)
               [0..<nat (max_retries ?c1)] ?w1))"
    by blast
  from retry_loop_trace [of ?c1 provider "format_prompt template text"
      "[0..<nat (max_retries ?c1)]" ?w1]
  obtain rest where r: "events (snd (retry_loop ?c1 provider (format_prompt template text)
               [0..<nat (max_retries ?c1)] ?w1)) = events ?w1 @ rest"
    "\<forall>e\<in>set rest. is_attempt e \<or> is_backoff e"
    by blast
  show "\<exists>rest. events (snd (snd (improve_text c provider text mode w))) =
          events w @
          (if 0 < oldest_wait c w then [RateLimitSleep (oldest_wait c w)] else []) @
          [RecordRequest (clock w + max 0 (oldest_wait c w))] @ rest \<and>
        (\<forall>e\<in>set rest. is_attempt e \<or> is_backoff e)"
    using r by (intro exI [of _ rest]) (simp add: it)
  show "request_times (fst (snd (improve_text c provider text mode w))) =
       tl (discard_old (clock w) (request_times c)) @ [clock w + max 0 (oldest_wait c w)]"
    by (simp add: it)
next
  assume "\<forall>call\<in>set calls. 0 \<le> fst call"
  then show "window_count T (recorded (events (snd (run (new_client rpm retries)
          \<lparr>clock = t0, events = []\<rparr> calls)))) \<le> rpm"
    by (rule run_window)
qed

theorem rate_limit_blocks_and_bounds_witness:
  "events (snd (snd (improve_text ((new_client 2 3)\<lparr>request_times := [10, 20]\<rparr>)
      (scripted [Response ''The cat.'']) ''teh cat'' ''grammar_fix''
      \<lparr>clock = 50, events = []\<rparr>))) =
     [RateLimitSleep 20, RecordRequest 70,
      GenerateContent (format_prompt (the (map_of PROMPTS ''grammar_fix'')) ''teh cat'')]
   \<and> request_times (fst (snd (improve_text ((new_client 2 3)\<lparr>request_times := [10, 20]\<rparr>)
      (scripted [Response ''The cat.'']) ''teh cat'' ''grammar_fix''
      \<lparr>clock = 50, events = []\<rparr>))) = [20, 70]
   \<and> recorded (events (snd (run (new_client 2 3) \<lparr>clock = 0, events = []\<rparr>
        [(0, ''teh cat'', ''grammar_fix'', scripted [Response ''The cat.'']),
         (0, ''teh dog'', ''grammar_fix'', scripted [Response ''The dog.'']),
         (5, ''teh fox'', ''grammar_fix'', scripted [Response ''The fox.''])]))) = [0, 0, 60]
   \<and> window_count 60 (recorded (events (snd (run (new_client 2 3) \<lparr>clock = 0, events = []\<rparr>
        [(0, ''teh cat'', ''grammar_fix'', scripted [Response ''The cat.'']),
         (0, ''teh dog'', ''grammar_fix'', scripted [Response ''The dog.'']),
         (5, ''teh fox'', ''grammar_fix'', scripted [Response ''The fox.''])])))) \<le> 2"
proof -
  have chars: "\<exists>ch\<in>set ''teh cat''. \<not> isspace ch"
    by (simp add: isspace_def)
  have mode: "''grammar_fix'' \<in> valid_modes"
    by (simp add: valid_modes_def)
  have full: "1 \<le> requests_per_minute ((new_client 2 3)\<lparr>request_times := [10, 20]\<rparr>) \<and>
      length (discard_old (clock \<lparr>clock = 50, events = []\<rparr>)
        (request_times ((new_client 2 3)\<lparr>request_times := [10, 20]\<rparr>))) =
      requests_per_minute ((new_client 2 3)\<lparr>request_times := [10, 20]\<rparr>)"
    by (simp add: new_client_def discard_old_def)
  have gaps: "\<forall>call\<in>set [(0::real, ''teh cat'', ''grammar_fix'', scripted [Response ''The cat.'']),
         (0, ''teh dog'', ''grammar_fix'', scripted [Response ''The dog.'']),
         (5, ''teh fox'', ''grammar_fix'', scripted [Response ''The fox.''])]. 0 \<le> fst call"
    by simp
  have evaluated: "recorded (events (snd (run (new_client 2 3) \<lparr>clock = 0, events = []\<rparr>
        [(0, ''teh cat'', ''grammar_fix'', scripted [Response ''The cat.'']),
         (0, ''teh dog'', ''grammar_fix'', scripted [Response ''The dog.'']),
         (5, ''teh fox'', ''grammar_fix'', scripted [Response ''The fox.''])]))) = [0, 0, 60]"
    by (simp add: improve_text_def strip_def isspace_def PROMPTS_def check_rate_limit_def
      discard_old_def record_request_def deque_append_def emit_def sleep_def
      scripted_def new_client_def format_prompt_def upt_rec Let_def)
  have first: "events (snd (snd (improve_text ((new_client 2 3)\<lparr>request_times := [10, 20]\<rparr>)
      (scripted [Response ''The cat.'']) ''teh cat'' ''grammar_fix''
      \<lparr>clock = 50, events = []\<rparr>))) =
     [RateLimitSleep 20, RecordRequest 70,
      GenerateContent (format_prompt (the (map_of PROMPTS ''grammar_fix'')) ''teh cat'')]"
    by (simp add: improve_text_def strip_def isspace_def PROMPTS_def check_rate_limit_def
      discard_old_def record_request_def deque_append_def emit_def sleep_def
      scripted_def new_client_def format_prompt_def upt_rec Let_def)
  from rate_limit_blocks_and_bounds [where ?text = "''teh cat''" and mode = "''grammar_fix''"
      and c = "(new_client 2 3)\<lparr>request_times := [10, 20]\<rparr>"
      and w = "\<lparr>clock = 50, events = []\<rparr>" and provider = "scripted [Response ''The cat.'']"
      and calls = "[(0, ''teh cat'', ''grammar_fix'', scripted [Response ''The cat.'']),
         (0, ''teh dog'', ''grammar_fix'', scripted [Response ''The dog.'']),
         (5, ''teh fox'', ''grammar_fix'', scripted [Response ''The fox.''])]"
      and T = 60 and rpm = 2 and retries = 3 and ?t0.0 = 0]
    chars mode full gaps
  have "request_times (fst (snd (improve_text ((new_client 2 3)\<lparr>request_times := [10, 20]\<rparr>)
      (scripted [Response ''The cat.'']) ''teh cat'' ''grammar_fix''
      \<lparr>clock = 50, events = []\<rparr>))) = [20, 70]
   \<and> window_count 60 (recorded (events (snd (run (new_client 2 3) \<lparr>clock = 0, events = []\<rparr>
        [(0, ''teh cat'', ''grammar_fix'', scripted [Response ''The cat.'']),
         (0, ''teh dog'', ''grammar_fix'', scripted [Response ''The dog.'']),
         (5, ''teh fox'', ''grammar_fix'', scripted [Response ''The fox.''])])))) \<le> 2"
    by (simp add: oldest_wait_def discard_old_def new_client_def)
  with evaluated first show ?thesis by simp
qed

text \<open>
  A call that arrives exactly 60 s after the oldest recorded one is let through without a
  wait, so a window closed at both ends can hold one call more: with a quota of two, the
  calls let through at 0, 0 and 60 all lie in \<open>[0, 60]\<close>.
\<close>

lemma closed_window_holds_one_more:
  "length (filter (\<lambda>t. 0 \<le> t \<and> t \<le> 60)
     (recorded (events (snd (run (new_client 2 3) \<lparr>clock = 0, events = []\<rparr>
        [(0, ''teh cat'', ''grammar_fix'', scripted [Response ''The cat.'']),
         (0, ''teh dog'', ''grammar_fix'', scripted [Response ''The dog.'']),
         (60, ''teh fox'', ''grammar_fix'', scripted [Response ''The fox.''])]))))) = 3"
  by (simp add: improve_text_def strip_def isspace_def PROMPTS_def check_rate_limit_def
      discard_old_def record_request_def deque_append_def emit_def sleep_def
      scripted_def new_client_def format_prompt_def upt_rec Let_def)

text \<open>
  C1. The claim bounds the requests issued in any trailing 60 s window by
  \<open>requests_per_minute\<close>, which the constructor's docstring calls the rate limit for API
  calls. The code does not keep that bound: each attempt of the retry loop sends a request
  to the provider (the loop logs it as such), and only the first attempt of a call has
  passed the limiter. With a quota of one request per minute and three attempts allowed,
  a call at time 0 whose first two attempts raise sends requests at the times 0, 1 and 3:
  three requests in the 60 s that end at time 3.
\<close>

theorem retries_bypass_rate_limit:
  "requests_per_minute (new_client 1 3) = 1
   \<and> sent 0 (events (snd (snd (improve_text (new_client 1 3)
        (scripted [Raises, Raises, Response ''The cat.'']) ''teh cat'' ''grammar_fix''
        \<lparr>clock = 0, events = []\<rparr>)))) = [0, 1, 3]
   \<and> window_count 3 (sent 0 (events (snd (snd (improve_text (new_client 1 3)
        (scripted [Raises, Raises, Response ''The cat.'']) ''teh cat'' ''grammar_fix''
        \<lparr>clock = 0, events = []\<rparr>))))) = 3"
  by (simp add: improve_text_def strip_def isspace_def PROMPTS_def check_rate_limit_def
      discard_old_def record_request_def deque_append_def emit_def sleep_def
      scripted_def new_client_def format_prompt_def upt_rec Let_def window_count_def)

subsection \<open>Back-off and the kind of failure\<close>

text \<open>
  C5, as the code has it. Both kinds of failure are retried, but only a raised error is
  delayed. When the first \<open>n\<close> attempts of a call fail, and either they are all the
  attempts allowed or attempt \<open>n + 1\<close> succeeds, the trace of the call after the rate
  limiter is, attempt by attempt: the \<open>generate_content\<close> call, then a sleep of
  \<open>2 ^ attempt\<close> seconds if the attempt raised and is not the last one allowed, and
  nothing if it returned an empty response, so that the next attempt follows at once.
\<close>

theorem improve_text_backoff_only_after_raise:
  assumes "\<exists>ch\<in>set text. \<not> isspace ch" and "mode \<in> valid_modes"
    and "1 \<le> requests_per_minute c"
    and "\<forall>a<n. failed (provider a)"
    and "int n = max 0 (max_retries c) \<or> (int n < max_retries c \<and> \<not> failed (provider n))"
  shows "\<exists>pre. (\<forall>e\<in>set pre. \<not> is_attempt e \<and> \<not> is_backoff e) \<and>
     events (snd (snd (improve_text c provider text mode w))) =
       events w @ pre @
       concat (map (attempt_events c provider (format_prompt (the (map_of PROMPTS mode)) text))
                 [0..<n]) @
       (if int n < max_retries c
        then [GenerateContent (format_prompt (the (map_of PROMPTS mode)) text)] else [])"
proof -
  from check_rate_limit_ok [OF assms(3), of w] obtain c1 w1 pre where
    ok: "check_rate_limit c w = (Inr (), c1, w1)" "max_retries c1 = max_retries c"
      "events w1 = events w @ pre @ [RecordRequest (clock w1)]"
      "\<forall>e\<in>set pre. \<not> is_attempt e \<and> \<not> is_backoff e"
    by blast
  from improve_text_valid [OF assms(1,2) ok(1), of provider] obtain template where
    t: "map_of PROMPTS mode = Some template" and
    it: "improve_text c provider text mode w =
       (Inr (fst (retry_loop c1 provider (format_prompt template text)
                    [0..<nat (max_retries c1)] w1)),
        c1,
        snd (retry_loop c1 provider (format_prompt template text)
               [0..<nat (max_retries c1)] w1))"
    by blast
  let ?prompt = "format_prompt template text"
  have fails: "\<forall>a\<in>set [0..<n]. failed (provider a)"
    using assms(4) by simp
  have ae: "(\<lambda>a. GenerateContent ?prompt #
          (if provider a = Raises \<and> int a < max_retries c1 - 1
           then [BackoffSleep (2 ^ a)] else [])) = attempt_events c provider ?prompt"
    by (rule ext) (simp add: attempt_events_def ok(2))
  have pre': "\<forall>e\<in>set (pre @ [RecordRequest (clock w1)]). \<not> is_attempt e \<and> \<not> is_backoff e"
    using ok(4) by simp
  from assms(5) have "events (snd (retry_loop c1 provider ?prompt [0..<nat (max_retries c1)] w1)) =
       events w1 @ concat (map (attempt_events c provider ?prompt) [0..<n]) @
       (if int n < max_retries c then [GenerateContent ?prompt] else [])"
  proof
    assume n: "int n = max 0 (max_retries c)"
    then have "nat (max_retries c1) = n"
      using ok(2) by linarith
    then have "[0..<nat (max_retries c1)] = [0..<n] @ []"
      by simp
    moreover from n have "\<not> int n < max_retries c" by simp
    ultimately show ?thesis
      using retry_loop_failed_prefix [OF fails, of c1 ?prompt "[]" w1]
      by (simp add: ae del: upt.simps)
  next
    assume n: "int n < max_retries c \<and> \<not> failed (provider n)"
    then obtain resp where resp: "provider n = Response resp" "resp \<noteq> []"
      by (cases "provider n") (auto simp: failed_def)
    from n have split: "[0..<nat (max_retries c1)] = [0..<n] @ n # [Suc n..<nat (max_retries c1)]"
      using ok(2) by (intro upt_split_at) linarith
    show ?thesis
      unfolding split
      using n by (simp add: retry_loop_success_after_failures [OF fails resp] ae del: upt.simps)
  qed
  then have "events (snd (snd (improve_text c provider text mode w))) =
       events w @ (pre @ [RecordRequest (clock w1)]) @
       concat (map (attempt_events c provider (format_prompt (the (map_of PROMPTS mode)) text))
                 [0..<n]) @
       (if int n < max_retries c
        then [GenerateContent (format_prompt (the (map_of PROMPTS mode)) text)] else [])"
    by (simp add: it t ok(3))
  with pre' show ?thesis by blast
qed

theorem improve_text_backoff_only_after_raise_witness:
  "backoff_slept (events (snd (snd (improve_text (new_client 50 4)
      (scripted [Raises, Response [], Raises, Raises]) ''teh cat'' ''grammar_fix''
      \<lparr>clock = 0, events = []\<rparr>)))) = 5"
proof -
  have script: "\<forall>a<4. failed (scripted [Raises, Response [], Raises, Raises] a)"
    by (simp add: scripted_def failed_def nth_Cons')
  have chars: "\<exists>ch\<in>set ''teh cat''. \<not> isspace ch"
    by (simp add: isspace_def)
  have mode: "''grammar_fix'' \<in> valid_modes"
    by (simp add: valid_modes_def)
  have quota: "1 \<le> requests_per_minute (new_client 50 4)"
    by (simp add: new_client_def)
  have n: "int 4 = max 0 (max_retries (new_client 50 4)) \<or>
      (int 4 < max_retries (new_client 50 4) \<and> \<not> failed (scripted [Raises, Response [], Raises, Raises] 4))"
    by (simp add: new_client_def)
  have pre: "backoff_slept pre = 0" if "\<forall>e\<in>set pre. \<not> is_attempt e \<and> \<not> is_backoff e" for pre
    using that by (induction pre rule: backoff_slept.induct) simp_all
  have upt: "[0..<4] = [0, 1, 2, 3::nat]"
    by (simp add: upt_rec)
  from improve_text_backoff_only_after_raise [OF chars mode quota script n,
        of "\<lparr>clock = 0, events = []\<rparr>"]
  obtain pre where p: "\<forall>e\<in>set pre. \<not> is_attempt e \<and> \<not> is_backoff e"
    and ev: "events (snd (snd (improve_text (new_client 50 4)
      (scripted [Raises, Response [], Raises, Raises]) ''teh cat'' ''grammar_fix''
      \<lparr>clock = 0, events = []\<rparr>))) =
      events \<lparr>clock = 0, events = []\<rparr> @ pre @
       concat (map (attempt_events (new_client 50 4) (scripted [Raises, Response [], Raises, Raises])
          (format_prompt (the (map_of PROMPTS ''grammar_fix'')) ''teh cat'')) [0..<4]) @
       (if int 4 < max_retries (new_client 50 4)
        then [GenerateContent (format_prompt (the (map_of PROMPTS ''grammar_fix'')) ''teh cat'')] else [])"
    by blast
  show ?thesis
    unfolding ev
    by (simp add: backoff_slept_append pre [OF p] attempt_events_def scripted_def new_client_def upt
        del: upt.simps)
qed

text \<open>
  The claim as written gives an empty response the delay of a raised error. With three
  attempts allowed, a first attempt that raises is followed by a sleep of \<open>2^0\<close> seconds;
  a first attempt that returns an empty response is followed by no sleep at all.
\<close>

theorem empty_response_counterexample:
  "failed (scripted [Response [], Response ''The cat.''] 0)
   \<and> failed (scripted [Raises, Response ''The cat.''] 0)
   \<and> backoff_slept (events (snd (snd (improve_text (new_client 50 3)
        (scripted [Raises, Response ''The cat.'']) ''teh cat'' ''grammar_fix''
        \<lparr>clock = 0, events = []\<rparr>)))) = 2 ^ 0
   \<and> backoff_slept (events (snd (snd (improve_text (new_client 50 3)
        (scripted [Response [], Response ''The cat.'']) ''teh cat'' ''grammar_fix''
        \<lparr>clock = 0, events = []\<rparr>)))) = 0"
  by (simp add: improve_text_def strip_def isspace_def PROMPTS_def check_rate_limit_def
      discard_old_def record_request_def deque_append_def emit_def sleep_def
      scripted_def failed_def new_client_def format_prompt_def upt_rec Let_def)

section \<open>Properties of the configuration\<close>

lemma map_of_dict_set: "map_of (dict_set d key v) = (map_of d)(key \<mapsto> v)"
  by (induction d key v rule: dict_set.induct) auto

text \<open>
  What a key of the merged configuration holds, for a user document whose keys differ from
  each other (as the keys of a \<open>dict\<close> do).
\<close>

lemma map_of_merge_with_defaults:
  "distinct (map fst config) \<Longrightarrow>
   map_of (merge_with_defaults config defaults) k =
     (case map_of config k of
        None \<Rightarrow> map_of defaults k
      | Some v \<Rightarrow>
          (case (map_of defaults k, v) of
             (Some (VDict d), VDict u) \<Rightarrow> Some (VDict (merge_with_defaults u d))
           | _ \<Rightarrow> Some v))"
proof (induction config arbitrary: defaults)
  case Nil
  then show ?case by simp
next
  case (Cons item items)
  obtain key v where item: "item = (key, v)" by (cases item)
  from Cons.prems item have d: "distinct (map fst items)" and fresh: "map_of items key = None"
    by (auto simp: map_of_eq_None_iff)
  show ?case
    unfolding item
    by (simp add: Cons.IH [OF d] fresh map_of_dict_set
        split: option.splits cval.splits)
qed

text \<open>
  C7. In the merge of a user mapping with a table of defaults, a key the user document does
  not have keeps its default value; a key whose value is a mapping in both holds the merge
  of the two mappings by the same function; any other key of the user document holds the
  user's value. The user document with only \<open>rate_limit.requests_per_minute = 30\<close> gives
  a configuration whose \<open>gemini.model\<close> is the default one and whose
  \<open>requests_per_minute\<close> is 30.
\<close>

theorem merge_with_defaults_overrides:
  assumes "distinct (map fst config)"
  shows "(map_of config k = None \<longrightarrow>
            map_of (merge_with_defaults config defaults) k = map_of defaults k)
       \<and> (\<forall>u d. map_of config k = Some (VDict u) \<and> map_of defaults k = Some (VDict d) \<longrightarrow>
            map_of (merge_with_defaults config defaults) k =
              Some (VDict (merge_with_defaults u d)))
       \<and> (\<forall>v. map_of config k = Some v \<and>
              \<not> (\<exists>u d. v = VDict u \<and> map_of defaults k = Some (VDict d)) \<longrightarrow>
            map_of (merge_with_defaults config defaults) k = Some v)
       \<and> config_get (VDict (merge_with_defaults
              [(''rate_limit'', VDict [(''requests_per_minute'', VInt 30)])] DEFAULT_CONFIG))
            [''gemini'', ''model''] VNone
          = config_get (VDict DEFAULT_CONFIG) [''gemini'', ''model''] VNone
       \<and> config_get (VDict (merge_with_defaults
              [(''rate_limit'', VDict [(''requests_per_minute'', VInt 30)])] DEFAULT_CONFIG))
            [''rate_limit'', ''requests_per_minute''] VNone
          = VInt 30"
proof -
  note look = map_of_merge_with_defaults [OF assms, of defaults k]
  have "map_of config k = None \<longrightarrow>
            map_of (merge_with_defaults config defaults) k = map_of defaults k"
    by (simp add: look)
  moreover have "\<forall>u d. map_of config k = Some (VDict u) \<and> map_of defaults k = Some (VDict d) \<longrightarrow>
            map_of (merge_with_defaults config defaults) k =
              Some (VDict (merge_with_defaults u d))"
    by (simp add: look)
  moreover have "\<forall>v. map_of config k = Some v \<and>
              \<not> (\<exists>u d. v = VDict u \<and> map_of defaults k = Some (VDict d)) \<longrightarrow>
            map_of (merge_with_defaults config defaults) k = Some v"
    by (auto simp: look split: option.splits cval.splits)
  moreover have "config_get (VDict (merge_with_defaults
              [(''rate_limit'', VDict [(''requests_per_minute'', VInt 30)])] DEFAULT_CONFIG))
            [''gemini'', ''model''] VNone
          = config_get (VDict DEFAULT_CONFIG) [''gemini'', ''model''] VNone"
    by (simp add: DEFAULT_CONFIG_def)
  moreover have "config_get (VDict (merge_with_defaults
              [(''rate_limit'', VDict [(''requests_per_minute'', VInt 30)])] DEFAULT_CONFIG))
            [''rate_limit'', ''requests_per_minute''] VNone
          = VInt 30"
    by (simp add: DEFAULT_CONFIG_def)
  ultimately show ?thesis by blast
qed

theorem merge_with_defaults_overrides_witness:
  "map_of (merge_with_defaults
      [(''rate_limit'', VDict [(''requests_per_minute'', VInt 30)]), (''ui'', VInt 7)]
      DEFAULT_CONFIG) ''gemini'' = map_of DEFAULT_CONFIG ''gemini''
   \<and> map_of (merge_with_defaults
      [(''rate_limit'', VDict [(''requests_per_minute'', VInt 30)]), (''ui'', VInt 7)]
      DEFAULT_CONFIG) ''rate_limit'' =
     Some (VDict (merge_with_defaults [(''requests_per_minute'', VInt 30)]
        [(''requests_per_minute'', VInt 50)]))
   \<and> map_of (merge_with_defaults
      [(''rate_limit'', VDict [(''requests_per_minute'', VInt 30)]), (''ui'', VInt 7)]
      DEFAULT_CONFIG) ''ui'' = Some (VInt 7)"
proof -
  have d: "distinct (map fst
      [(''rate_limit'', VDict [(''requests_per_minute'', VInt 30)]), (''ui'', VInt 7)])"
    by simp
  show ?thesis
    using merge_with_defaults_overrides [OF d, of "''gemini''" DEFAULT_CONFIG]
      merge_with_defaults_overrides [OF d, of "''rate_limit''" DEFAULT_CONFIG]
      merge_with_defaults_overrides [OF d, of "''ui''" DEFAULT_CONFIG]
    by (simp add: DEFAULT_CONFIG_def)
qed

text \<open>
  C8. For a configuration whose \<open>gemini.api_key\<close> is a string and whose
  \<open>rate_limit.requests_per_minute\<close> is an integer, \<open>_validate\<close> raises (a
  \<open>ValueError\<close>) exactly when the key is empty or is the placeholder, or the quota is
  not in the interval (0, 60]: so it rejects 0, 61 and every negative quota and accepts
  1 to 60.
\<close>

theorem validate_rejects_exactly:
  assumes "map_of config ''gemini'' = Some (VDict gemini)"
    and "map_of gemini ''api_key'' = Some (VStr api_key)"
    and "map_of config ''rate_limit'' = Some (VDict rate_limit)"
    and "map_of rate_limit ''requests_per_minute'' = Some (VInt rpm)"
  shows "validate config =
     (if api_key = [] \<or> api_key = ''YOUR_GEMINI_API_KEY_HERE'' \<or> rpm \<le> 0 \<or> 60 < rpm
      then Inl ValueError else Inr ())"
  using assms by (simp add: validate_def dict_get_def Let_def)

lemma merged_user_config:
  "map_of (merge_with_defaults (user_config api_key rpm) DEFAULT_CONFIG) ''gemini'' =
     Some (VDict [(''api_key'', VStr api_key), (''model'', VStr ''gemini-2.0-flash-exp''),
        (''max_retries'', VInt 3), (''timeout'', VInt 10)])"
  "map_of (merge_with_defaults (user_config api_key rpm) DEFAULT_CONFIG) ''rate_limit'' =
     Some (VDict [(''requests_per_minute'', VInt rpm)])"
  by (simp_all add: user_config_def DEFAULT_CONFIG_def)

theorem validate_rejects_exactly_witness:
  "validate (merge_with_defaults (user_config ''secret'' 60) DEFAULT_CONFIG) = Inr ()
   \<and> validate (merge_with_defaults (user_config ''secret'' 1) DEFAULT_CONFIG) = Inr ()
   \<and> validate (merge_with_defaults (user_config ''secret'' 0) DEFAULT_CONFIG) = Inl ValueError
   \<and> validate (merge_with_defaults (user_config ''secret'' 61) DEFAULT_CONFIG) = Inl ValueError
   \<and> validate (merge_with_defaults (user_config ''secret'' (- 5)) DEFAULT_CONFIG)
       = Inl ValueError
   \<and> validate (merge_with_defaults (user_config [] 30) DEFAULT_CONFIG) = Inl ValueError
   \<and> validate (merge_with_defaults (user_config ''YOUR_GEMINI_API_KEY_HERE'' 30) DEFAULT_CONFIG)
       = Inl ValueError"
proof -
  have key: "map_of [(''api_key'', VStr k), (''model'', VStr ''gemini-2.0-flash-exp''),
        (''max_retries'', VInt 3), (''timeout'', VInt 10)] ''api_key'' = Some (VStr k)" for k
    by simp
  have quota: "map_of [(''requests_per_minute'', VInt n)] ''requests_per_minute'' = Some (VInt n)"
    for n
    by simp
  note v = validate_rejects_exactly [OF merged_user_config(1) key merged_user_config(2) quota]
  show ?thesis
    using v [of "''secret''" 60] v [of "''secret''" 1] v [of "''secret''" 0]
      v [of "''secret''" 61] v [of "''secret''" "- 5"] v [of "[]" 30]
      v [of "''YOUR_GEMINI_API_KEY_HERE''" 30]
    by simp
qed

section \<open>Properties of the selection capture and replacement\<close>

text \<open>
  C10. What \<open>get_selected_text\<close> returns is \<open>None\<close> or a string with at least one
  character that is not whitespace: a captured text \<open>s\<close> never meets the blank-input
  guard \<open>not text or not text.strip()\<close> of \<open>improve_text\<close>.
\<close>

theorem get_selected_text_not_blank:
  "fst (get_selected_text osa clip) = None \<or>
   (\<exists>s. fst (get_selected_text osa clip) = Some s \<and>
        (\<exists>ch\<in>set s. \<not> isspace ch) \<and> \<not> (s = [] \<or> strip s = []))"
  by (auto simp: get_selected_text_def Let_def split_beta strip_eq_Nil_iff
      split: option.splits if_splits)

theorem get_selected_text_not_blank_witness:
  "fst (get_selected_text (copies ''teh cat'') (Some ''kept'')) = Some ''teh cat''
   \<and> fst (get_selected_text (copies ''  '') (Some ''kept'')) = None
   \<and> fst (get_selected_text (script_exits 1) None) = None"
  using get_selected_text_not_blank [of "copies ''teh cat''" "Some ''kept''"]
    get_selected_text_not_blank [of "copies ''  ''" "Some ''kept''"]
    get_selected_text_not_blank [of "script_exits 1" None]
  by (simp add: get_selected_text_def execute_applescript_def copies_def script_exits_def
      isspace_def strip_def)

text \<open>
  C9, as the code has it. When the pasteboard held a non-empty string before the call, or
  the new text is empty (nothing is then touched), \<open>replace_selected_text\<close> returns with
  the pasteboard as it was, whatever the paste script did: it may have pasted, exited with
  an error or timed out.
\<close>

theorem replace_selected_text_restores:
  "new_text = [] \<or> (clip = Some s \<and> s \<noteq> []) \<Longrightarrow>
     snd (replace_selected_text osa new_text clip) = clip"
  by (auto simp: replace_selected_text_def Let_def split_beta)

theorem replace_selected_text_restores_witness:
  "snd (replace_selected_text (script_exits 0) ''The cat.'' (Some ''kept'')) = Some ''kept''
   \<and> snd (replace_selected_text (script_exits 1) ''The cat.'' (Some ''kept'')) = Some ''kept''
   \<and> snd (replace_selected_text (script_exits 0) [] None) = None"
  using replace_selected_text_restores [of "''The cat.''" "Some ''kept''" "''kept''" "script_exits 0"]
    replace_selected_text_restores [of "''The cat.''" "Some ''kept''" "''kept''" "script_exits 1"]
    replace_selected_text_restores [of "[]" None "[]" "script_exits 0"]
  by simp

text \<open>
  The claim as written restores every content. A pasteboard that held no string, or the
  empty string, is not restored: the guard \<open>if old_clipboard\<close> skips it, and the call
  returns with the new text on the pasteboard, after a paste that worked as after one that
  failed.
\<close>

theorem replace_selected_text_counterexample:
  "replace_selected_text (script_exits 0) ''The cat.'' None = (True, Some ''The cat.'')
   \<and> replace_selected_text (script_exits 1) ''The cat.'' (Some []) = (True, Some ''The cat.'')"
  by (simp add: replace_selected_text_def execute_applescript_def script_exits_def)

section \<open>Properties of the hotkey callback\<close>

lemma body_step_not_Idle: "body_step n st acts st' \<Longrightarrow> st \<noteq> Idle \<and> st' \<noteq> Idle"
  by (induction rule: body_step.induct) auto

lemma body_step_remaining: "body_step n st acts st' \<Longrightarrow> remaining st' < remaining st"
  by (induction rule: body_step.induct) auto

lemma body_step_progress:
  "st \<noteq> Idle \<Longrightarrow> st \<noteq> Releasing \<Longrightarrow> \<exists>acts st'. body_step n st acts st'"
  by (cases st) (blast intro: body_step.intros)+

lemma step_lock_inv: "step n i s s' \<Longrightarrow> lock_inv s \<Longrightarrow> lock_inv s'"
proof (induction rule: step.induct)
  case (busy s i)
  then show ?case by (simp add: lock_inv_def)
next
  case (acquire s i mode)
  then show ?case by (auto simp: lock_inv_def)
next
  case (body s i st acts st')
  from body(2) have "st \<noteq> Idle" "st' \<noteq> Idle"
    using body_step_not_Idle by blast+
  with body(1,3) show ?case
    by (auto simp: lock_inv_def)
next
  case (release s i)
  then have "stages s i \<noteq> Idle" by simp
  with release(2) have "\<forall>j. j \<noteq> i \<longrightarrow> stages s j = Idle"
    unfolding lock_inv_def by blast
  then show ?case by (auto simp: lock_inv_def)
qed

lemma reachable_lock_inv: "reachable n s \<Longrightarrow> lock_inv s"
proof (induction rule: reachable.induct)
  case initial
  show ?case by (simp add: lock_inv_def init_def)
next
  case (after s i s')
  then show ?case by (blast intro: step_lock_inv)
qed

lemma step_dropped:
  assumes "step n i s s'" and "stages s i = Idle" and "lock s"
  shows "s' = s\<lparr>log := log s @ [(i, Dropped)]\<rparr>"
  using assms
proof (cases rule: step.cases)
  case (body st acts st')
  with assms(2) show ?thesis using body_step_not_Idle by blast
qed auto

lemma step_progress:
  assumes "stages s i \<noteq> Idle"
  shows "\<exists>s'. step n i s s'"
proof (cases "stages s i = Releasing")
  case True
  then show ?thesis by (blast intro: step.release)
next
  case False
  with assms obtain acts st' where "body_step n (stages s i) acts st'"
    using body_step_progress by blast
  then show ?thesis by (blast intro: step.body)
qed

lemma step_remaining:
  assumes "step n i s s'" and "stages s i \<noteq> Idle"
  shows "remaining (stages s' i) < remaining (stages s i)"
  using assms by (cases rule: step.cases) (auto dest: body_step_remaining)

lemma step_exit_releases:
  assumes "step n i s s'" and "stages s i \<noteq> Idle" and "stages s' i = Idle"
  shows "\<not> lock s'"
  using assms by (cases rule: step.cases) (auto dest: body_step_not_Idle)

lemma step_acquires:
  assumes "step n i s s'" and "stages s i = Idle" and "\<not> lock s"
  shows "\<exists>mode. s' = s\<lparr>lock := True, stages := (stages s)(i := Started mode)\<rparr>"
  using assms
proof (cases rule: step.cases)
  case (body st acts st')
  with assms(2) show ?thesis using body_step_not_Idle by blast
qed auto

lemma step_never_blocks: "\<exists>t. step n i s t"
proof (cases "stages s i = Idle")
  case True
  then show ?thesis
    by (cases "lock s") (blast intro: step.busy step.acquire)+
next
  case False
  then show ?thesis by (rule step_progress)
qed

lemma step_keeps_lock:
  assumes "step n i s s'" and "stages s i \<noteq> Idle" and "stages s' i \<noteq> Idle"
  shows "lock s' = lock s"
  using assms by (cases rule: step.cases) auto

lemma step_exit_from_finally:
  assumes "step n i s s'" and "stages s i \<noteq> Idle" and "stages s' i = Idle"
  shows "stages s i = Releasing"
  using assms by (cases rule: step.cases) (auto dest: body_step_not_Idle)

lemma step_others: "step n i s s' \<Longrightarrow> j \<noteq> i \<Longrightarrow> stages s' j = stages s j"
  by (cases rule: step.cases) auto

lemma step_moved:
  "stages s i = st \<Longrightarrow> body_step n st acts st' \<Longrightarrow> step n i s (moved i st' acts s)"
  unfolding moved_def by (rule step.body)

lemma step_released: "stages s i = Releasing \<Longrightarrow> step n i s (released i s)"
  unfolding released_def by (rule step.release)

text \<open>
  C2. For every move of a caller \<open>i\<close> of \<open>handle_hotkey\<close>:
  \<^item> when the caller is at the entry and the lock is held, the move only records the dropped
    trigger: no stage changes, the lock stays as it is, and nothing is captured, sent to
    the API or replaced;
  \<^item> when the caller is at the entry and the lock is free, the move takes the lock and puts
    the caller inside, at the start of the \<open>try\<close> statement, and does nothing else;
  \<^item> no caller ever waits: in every state every caller can move;
  \<^item> in every reachable state at most one caller is inside the function, and the lock is
    held exactly when one is;
  \<^item> every move of a caller that is inside brings it nearer to the exit; while it stays
    inside the lock stays as it is, and no move changes the stage of another caller;
  \<^item> the only move that takes a caller outside is the \<open>finally\<close> clause (reached from the
    early return, from the last notification and from every exception), and it leaves the
    lock free.
\<close>

theorem handle_hotkey_lock:
  "(step n i s s' \<and> stages s i = Idle \<and> lock s \<longrightarrow> s' = s\<lparr>log := log s @ [(i, Dropped)]\<rparr>)
   \<and> (step n i s s' \<and> stages s i = Idle \<and> \<not> lock s \<longrightarrow>
        (\<exists>mode. s' = s\<lparr>lock := True, stages := (stages s)(i := Started mode)\<rparr>))
   \<and> (\<exists>t. step n i s t)
   \<and> (reachable n s \<and> stages s i \<noteq> Idle \<and> stages s j \<noteq> Idle \<longrightarrow> i = j)
   \<and> (reachable n s \<longrightarrow> (lock s \<longleftrightarrow> (\<exists>k. stages s k \<noteq> Idle)))
   \<and> (step n i s s' \<and> stages s i \<noteq> Idle \<longrightarrow>
        remaining (stages s' i) < remaining (stages s i))
   \<and> (step n i s s' \<and> stages s i \<noteq> Idle \<and> stages s' i \<noteq> Idle \<longrightarrow> lock s' = lock s)
   \<and> (step n i s s' \<and> j \<noteq> i \<longrightarrow> stages s' j = stages s j)
   \<and> (step n i s s' \<and> stages s i \<noteq> Idle \<and> stages s' i = Idle \<longrightarrow>
        stages s i = Releasing \<and> \<not> lock s')"
  using step_dropped [of n i s s'] step_acquires [of n i s s'] step_never_blocks [of n i s]
    reachable_lock_inv [of n s] step_remaining [of n i s s'] step_keeps_lock [of n i s s']
    step_others [of n i s s' j] step_exit_releases [of n i s s']
    step_exit_from_finally [of n i s s']
  unfolding lock_inv_def by blast

theorem handle_hotkey_lock_witness:
  "step True 0 init busy_state \<and> lock busy_state
   \<and> step True 1 busy_state dropped_state
   \<and> stages dropped_state 1 = Idle \<and> lock dropped_state
   \<and> step True 0 dropped_state notified_state
   \<and> remaining (stages notified_state 0) < remaining (stages dropped_state 0)
   \<and> lock notified_state
   \<and> step True 0 notified_state unselected_state
   \<and> step True 0 unselected_state returning_state
   \<and> step True 0 returning_state returned_state
   \<and> reachable True returned_state
   \<and> \<not> lock returned_state
   \<and> log returned_state =
       [(1, Dropped), (0, Notify ''Processing (grammar_fix)...''), (0, Capture),
        (0, Notify ''No text selected'')]
   \<and> step True 0 busy_state failing_state
   \<and> step True 0 failing_state handled_state
   \<and> step True 0 handled_state recovered_state
   \<and> reachable True recovered_state
   \<and> \<not> lock recovered_state
   \<and> log recovered_state = [(0, Notify ''An error occurred'')]"
proof -
  have s1: "step True 0 init busy_state"
    unfolding busy_state_def by (rule step.acquire) (simp_all add: init_def)
  have s2: "step True 1 busy_state dropped_state"
    unfolding dropped_state_def by (rule step.busy) (simp_all add: busy_state_def init_def)
  have "body_step True (Started ''grammar_fix'')
      (shown True (''Processing ('' @ ''grammar_fix'' @ '')...'')) (Capturing ''grammar_fix'')"
    by (rule body_step.processing)
  then have s3: "step True 0 dropped_state notified_state"
    unfolding notified_state_def
    by (intro step_moved [where st = "Started ''grammar_fix''"])
      (simp_all add: dropped_state_def busy_state_def init_def shown_def)
  have s4: "step True 0 notified_state unselected_state"
    unfolding unselected_state_def
    by (rule step_moved [where st = "Capturing ''grammar_fix''"])
      (simp_all add: notified_state_def moved_def body_step.no_selection [where selected = None])
  have "body_step True NoSelection (shown True ''No text selected'') Releasing"
    by (rule body_step.early_return)
  then have s5: "step True 0 unselected_state returning_state"
    unfolding returning_state_def
    by (intro step_moved [where st = NoSelection])
      (simp_all add: unselected_state_def moved_def shown_def)
  have s6: "step True 0 returning_state returned_state"
    unfolding returned_state_def
    by (rule step_released) (simp add: returning_state_def moved_def)
  have "body_step True (Started ''grammar_fix'') [] Handling"
    by (rule body_step.exception) simp
  then have f1: "step True 0 busy_state failing_state"
    unfolding failing_state_def
    by (intro step_moved [where st = "Started ''grammar_fix''"])
      (simp_all add: busy_state_def init_def)
  have "body_step True Handling (shown True ''An error occurred'') Releasing"
    by (rule body_step.handled)
  then have f2: "step True 0 failing_state handled_state"
    unfolding handled_state_def
    by (intro step_moved [where st = Handling]) (simp_all add: failing_state_def moved_def shown_def)
  have f3: "step True 0 handled_state recovered_state"
    unfolding recovered_state_def
    by (rule step_released) (simp add: handled_state_def moved_def)
  note run = reachable.after
  have r1: "reachable True returned_state"
    by (rule run [OF run [OF run [OF run [OF run [OF run [OF reachable.initial s1] s2] s3] s4] s5] s6])
  have r2: "reachable True recovered_state"
    by (rule run [OF run [OF run [OF run [OF reachable.initial s1] f1] f2] f3])
  have logs: "log returned_state =
       [(1, Dropped), (0, Notify ''Processing (grammar_fix)...''), (0, Capture),
        (0, Notify ''No text selected'')]"
    "log recovered_state = [(0, Notify ''An error occurred'')]"
    by (simp_all add: returned_state_def returning_state_def unselected_state_def
        notified_state_def dropped_state_def recovered_state_def handled_state_def
        failing_state_def busy_state_def init_def moved_def released_def)
  have stages: "stages init 0 = Idle" "\<not> lock init" "stages busy_state 1 = Idle"
    "stages dropped_state 0 \<noteq> Idle" "stages dropped_state 1 = Idle"
    "stages notified_state 0 \<noteq> Idle"
    "stages returning_state 0 \<noteq> Idle" "stages returned_state 0 = Idle"
    "stages handled_state 0 \<noteq> Idle" "stages recovered_state 0 = Idle"
    by (simp_all add: returned_state_def returning_state_def unselected_state_def
        notified_state_def dropped_state_def recovered_state_def handled_state_def
        failing_state_def busy_state_def init_def moved_def released_def)
  have held: "lock busy_state" "lock dropped_state"
    by (simp_all add: dropped_state_def busy_state_def init_def)
  show ?thesis
    using handle_hotkey_lock [of True 0 init busy_state 0]
      handle_hotkey_lock [of True 1 busy_state dropped_state 0]
      handle_hotkey_lock [of True 0 dropped_state notified_state 0]
      handle_hotkey_lock [of True 0 returning_state returned_state 0]
      handle_hotkey_lock [of True 0 handled_state recovered_state 0]
      s1 s2 s3 s4 s5 s6 f1 f2 f3 r1 r2 logs stages held
    by simp
qed

end
